theory Spec2Isabelle
  imports Main "HOL-Library.Word"
begin

section \<open>The memory block behind a vector handle\<close>

text \<open>
  \<^verbatim>\<open>cvector.h\<close> keeps a vector in one heap block: a \<^verbatim>\<open>cvector_header\<close> of three
  \<^verbatim>\<open>size_t\<close> fields followed by the element bytes. The width of \<^verbatim>\<open>size_t\<close> is the
  type parameter \<open>'w\<close>, so \<open>+\<close>, \<open>-\<close>, \<open>*\<close> and the shift wrap around as they do in C.

  A byte of the block is a \<open>cell\<close>: \<open>Some b\<close> for a byte that has been written, \<open>None\<close>
  for a byte whose value is indeterminate (fresh from \<^verbatim>\<open>malloc\<close> or \<^verbatim>\<open>realloc\<close>).
  The field \<open>storage\<close> holds the bytes of the block that come after the header, so the
  block is \<open>unat HEADER_SIZE + length storage\<close> bytes long.

  A \<^verbatim>\<open>char *\<close> handle is an \<open>option\<close>: \<open>None\<close> is the null pointer. A \<^verbatim>\<open>char **\<close>
  parameter is modelled by the handle it points to, and the function returns the handle
  it leaves there; only where the source tests the \<^verbatim>\<open>char **\<close> itself
  (\<^verbatim>\<open>cvector_swap\<close>, \<^verbatim>\<open>cvector_resize\<close>) it is an \<open>option\<close> of its own. A value buffer
  passed by the caller (\<^verbatim>\<open>char *value\<close>) is a list of cells that does not alias the
  vector's block.
\<close>

type_synonym byte = "8 word"
type_synonym cell = "byte option"

text \<open>
  Executions that do not return normally: a failed \<^verbatim>\<open>assert\<close>, a dereference of the
  null pointer, and an access outside the block. \<open>HeaderAccess\<close> marks a
  \<^verbatim>\<open>memmove\<close>/\<^verbatim>\<open>memcpy\<close> of at least one byte that touches the header bytes of the block:
  the model keeps the header as fields and does not follow such an execution further.
\<close>

datatype fault = AssertFailed | NullDeref | OutOfBounds | HeaderAccess

fun bind_r :: "fault + 'a \<Rightarrow> ('a \<Rightarrow> fault + 'b) \<Rightarrow> fault + 'b" where
  "bind_r (Inl e) f = Inl e"
| "bind_r (Inr x) f = f x"

record (overloaded) ('w) cvector_header =
  size_f :: "'w word"
  capacity_f :: "'w word"
  element_size_f :: "'w word"

record (overloaded) ('w) cvector = "'w cvector_header" +
  storage :: "cell list"

type_synonym 'w handle = "'w cvector option"

text \<open>\<^verbatim>\<open>sizeof(cvector_header)\<close>: three \<^verbatim>\<open>size_t\<close> fields of \<open>LENGTH('w) div 8\<close> bytes each.\<close>

definition HEADER_SIZE :: "'w::len word" where
  "HEADER_SIZE = of_nat (3 * (LENGTH('w) div 8))"

definition block_size :: "('w::len) cvector \<Rightarrow> nat" where
  "block_size v = unat (HEADER_SIZE :: 'w word) + length (storage v)"

text \<open>
  Reading and writing a byte range of the block, at an offset counted from the start of
  the block (the handle). A range that ends behind the block is out of bounds; an empty
  range inside the block (or one past its end) is a no-op.
\<close>

definition load_bytes :: "('w::len) cvector \<Rightarrow> nat \<Rightarrow> nat \<Rightarrow> fault + cell list" where
  "load_bytes v off n =
     (if block_size v < off + n then Inl OutOfBounds
      else if n = 0 then Inr []
      else if off < unat (HEADER_SIZE :: 'w word) then Inl HeaderAccess
      else Inr (take n (drop (off - unat (HEADER_SIZE :: 'w word)) (storage v))))"

definition store_bytes :: "('w::len) cvector \<Rightarrow> nat \<Rightarrow> cell list \<Rightarrow> fault + 'w cvector" where
  "store_bytes v off bs =
     (if block_size v < off + length bs then Inl OutOfBounds
      else if bs = [] then Inr v
      else if off < unat (HEADER_SIZE :: 'w word) then Inl HeaderAccess
      else Inr (v\<lparr>storage :=
                    take (off - unat (HEADER_SIZE :: 'w word)) (storage v) @ bs @
                    drop (off - unat (HEADER_SIZE :: 'w word) + length bs) (storage v)\<rparr>))"

text \<open>
  \<^verbatim>\<open>memcpy(vec + off, src, n)\<close> from a caller's buffer, and
  \<^verbatim>\<open>memmove(vec + dst, vec + src, n)\<close> inside the block (the source range is read
  before the destination is written, so the ranges may overlap).
\<close>

fun memcpy_m :: "('w::len) handle \<Rightarrow> nat \<Rightarrow> cell list \<Rightarrow> nat \<Rightarrow> fault + 'w handle" where
  "memcpy_m None off src n = Inl NullDeref"
| "memcpy_m (Some v) off src n =
     (if length src < n then Inl OutOfBounds
      else bind_r (store_bytes v off (take n src)) (\<lambda>v'. Inr (Some v')))"

fun memmove_m :: "('w::len) handle \<Rightarrow> nat \<Rightarrow> nat \<Rightarrow> nat \<Rightarrow> fault + 'w handle" where
  "memmove_m None dst src n = Inl NullDeref"
| "memmove_m (Some v) dst src n =
     bind_r (load_bytes v src n) (\<lambda>bs.
     bind_r (store_bytes v dst bs) (\<lambda>v'. Inr (Some v')))"

text \<open>
  \<^verbatim>\<open>realloc(vec, n)\<close>. The parameter \<open>alloc\<close> says which requests the allocator grants;
  a refused request returns the null pointer. A granted block keeps the old bytes up to
  the smaller of the two lengths, the bytes behind them are indeterminate. A block too
  short to hold the header is reported as out of bounds: \<^verbatim>\<open>cvector_grow\<close> writes the
  header of the block it gets next.
\<close>

definition resize_storage :: "cell list \<Rightarrow> nat \<Rightarrow> cell list" where
  "resize_storage bs n = take n bs @ replicate (n - length bs) None"

definition realloc_m :: "(nat \<Rightarrow> bool) \<Rightarrow> ('w::len) cvector \<Rightarrow> 'w word \<Rightarrow> fault + 'w handle" where
  "realloc_m alloc v n =
     (if \<not> alloc (unat n) then Inr None
      else if n < HEADER_SIZE then Inl OutOfBounds
      else Inr (Some (v\<lparr>storage := resize_storage (storage v) (unat n - unat (HEADER_SIZE :: 'w word))\<rparr>)))"

section \<open>The functions of \<^verbatim>\<open>cvector.h\<close>\<close>

fun cvector_capacity :: "('w::len) handle \<Rightarrow> fault + 'w word" where
  "cvector_capacity None = Inl AssertFailed"
| "cvector_capacity (Some v) = Inr (capacity_f v)"

fun cvector_size :: "('w::len) handle \<Rightarrow> fault + 'w word" where
  "cvector_size None = Inl AssertFailed"
| "cvector_size (Some v) = Inr (size_f v)"

fun cvector_element_size :: "('w::len) handle \<Rightarrow> fault + 'w word" where
  "cvector_element_size None = Inl AssertFailed"
| "cvector_element_size (Some v) = Inr (element_size_f v)"

fun cvector_set_capacity :: "('w::len) handle \<Rightarrow> 'w word \<Rightarrow> fault + 'w handle" where
  "cvector_set_capacity None new_capacity = Inl AssertFailed"
| "cvector_set_capacity (Some v) new_capacity = Inr (Some (v\<lparr>capacity_f := new_capacity\<rparr>))"

fun cvector_set_size :: "('w::len) handle \<Rightarrow> 'w word \<Rightarrow> fault + 'w handle" where
  "cvector_set_size None new_size = Inl AssertFailed"
| "cvector_set_size (Some v) new_size = Inr (Some (v\<lparr>size_f := new_size\<rparr>))"

text \<open>
  \<^verbatim>\<open>cvector_grow\<close>: the element size is read through the handle (which asserts it),
  the block is reallocated to \<^verbatim>\<open>HEADER_SIZE + new_capacity * element_size\<close> bytes, computed
  in \<^verbatim>\<open>size_t\<close>, \<^verbatim>\<open>assert(temp)\<close> stops on a refused request, and the capacity field is
  set to \<open>new_capacity\<close> whatever the size field holds.
\<close>

fun cvector_grow :: "(nat \<Rightarrow> bool) \<Rightarrow> ('w::len) handle \<Rightarrow> 'w word \<Rightarrow> fault + 'w handle" where
  "cvector_grow alloc None new_capacity = Inl AssertFailed"
| "cvector_grow alloc (Some v) new_capacity =
     bind_r (cvector_element_size (Some v)) (\<lambda>es.
     bind_r (realloc_m alloc v (HEADER_SIZE + new_capacity * es)) (\<lambda>temp.
     if temp = None then Inl AssertFailed
     else cvector_set_capacity temp new_capacity))"

definition cvector_reserve :: "(nat \<Rightarrow> bool) \<Rightarrow> ('w::len) handle \<Rightarrow> 'w word \<Rightarrow> fault + 'w handle" where
  "cvector_reserve alloc vec new_capacity =
     bind_r (cvector_capacity vec) (\<lambda>c.
     if c < new_capacity then cvector_grow alloc vec new_capacity else Inr vec)"

text \<open>
  \<^verbatim>\<open>cvector_init\<close> writes the three fields through the pointer \<^verbatim>\<open>malloc\<close> returned
  before it tests it, so a refused request is a null dereference; after the writes the
  test \<^verbatim>\<open>if (!vec)\<close> is false and the \<open>capacity\<close> argument is never used.
\<close>

definition cvector_init :: "(nat \<Rightarrow> bool) \<Rightarrow> 'w word \<Rightarrow> 'w word \<Rightarrow> fault + ('w::len) handle" where
  "cvector_init alloc capacity element_size =
     (if \<not> alloc (unat (HEADER_SIZE :: 'w word)) then Inl NullDeref
      else Inr (Some \<lparr>size_f = 0, capacity_f = 0, element_size_f = element_size, storage = []\<rparr>))"

fun cvector_remove :: "('w::len) handle \<Rightarrow> 'w word \<Rightarrow> fault + 'w handle" where
  "cvector_remove None index = Inr None"
| "cvector_remove (Some v) index =
     bind_r (cvector_size (Some v)) (\<lambda>vector_size.
     if index \<ge> vector_size then Inr (Some v)
     else
       let new_size = vector_size - 1 in
       bind_r (cvector_set_size (Some v) new_size) (\<lambda>vec.
       bind_r (cvector_element_size vec) (\<lambda>element_size.
       let array_size = index * element_size;
           size = HEADER_SIZE + array_size;
           min = unat size;
           max = min + unat element_size;
           length = (new_size - index) * element_size
       in memmove_m vec min max (unat length))))"

definition cvector_clear :: "('w::len) handle \<Rightarrow> fault + 'w handle" where
  "cvector_clear vec = cvector_set_size vec 0"

definition cvector_compute_next_grow :: "('w::len) word \<Rightarrow> 'w word" where
  "cvector_compute_next_grow sz = (if sz \<noteq> 0 then push_bit 1 sz else 1)"

definition cvector_push_back :: "(nat \<Rightarrow> bool) \<Rightarrow> ('w::len) handle \<Rightarrow> cell list \<Rightarrow> fault + 'w handle" where
  "cvector_push_back alloc vec value =
     bind_r (cvector_capacity vec) (\<lambda>current_capacity.
     bind_r (cvector_size vec) (\<lambda>sz.
     bind_r (if current_capacity \<le> sz
             then cvector_grow alloc vec (cvector_compute_next_grow current_capacity)
             else Inr vec) (\<lambda>vec.
     bind_r (cvector_element_size vec) (\<lambda>es.
     bind_r (cvector_size vec) (\<lambda>sz.
     let current_element = unat (HEADER_SIZE :: 'w word) + unat (es * sz) in
     bind_r (memcpy_m vec current_element value (unat es)) (\<lambda>vec.
     bind_r (cvector_size vec) (\<lambda>sz.
     cvector_set_size vec (sz + 1))))))))"

fun cvector_insert :: "(nat \<Rightarrow> bool) \<Rightarrow> ('w::len) handle \<Rightarrow> 'w word \<Rightarrow> cell list \<Rightarrow> fault + 'w handle" where
  "cvector_insert alloc None index fortran_data = Inl AssertFailed"
| "cvector_insert alloc (Some v) index fortran_data =
     bind_r (cvector_capacity (Some v)) (\<lambda>vec_capacity.
     bind_r (cvector_size (Some v)) (\<lambda>sz.
     bind_r (if vec_capacity \<le> sz
             then cvector_grow alloc (Some v) (cvector_compute_next_grow vec_capacity)
             else Inr (Some v)) (\<lambda>vec.
     bind_r (cvector_size vec) (\<lambda>current_size.
     bind_r (cvector_element_size vec) (\<lambda>element_size.
     bind_r (if index < current_size
             then
               let min = unat (HEADER_SIZE :: 'w word) + unat (index * element_size);
                   max = min + unat element_size;
                   length = (current_size - index) * element_size
               in memmove_m vec max min (unat length)
             else Inr vec) (\<lambda>vec.
     bind_r (memcpy_m vec (unat (HEADER_SIZE :: 'w word) + unat (element_size * index))
               fortran_data (unat element_size)) (\<lambda>vec.
     cvector_set_size vec (current_size + 1))))))))"

definition cvector_pop_back :: "('w::len) handle \<Rightarrow> fault + 'w handle" where
  "cvector_pop_back vec = bind_r (cvector_size vec) (\<lambda>sz. cvector_set_size vec (sz - 1))"

text \<open>
  \<^verbatim>\<open>cvector_clone\<close> copies \<^verbatim>\<open>HEADER_SIZE + capacity * element_size\<close> bytes (computed in
  \<^verbatim>\<open>size_t\<close>) of the source block into a fresh block and stores it in \<^verbatim>\<open>*to\<close>, the
  handle returned here. The result of \<^verbatim>\<open>malloc\<close> is not tested, so a refused request is a
  null dereference in \<^verbatim>\<open>memcpy\<close>. A copy shorter than the header is reported as out of
  bounds, as in \<open>realloc_m\<close>.
\<close>

fun cvector_clone :: "(nat \<Rightarrow> bool) \<Rightarrow> ('w::len) handle \<Rightarrow> 'w handle \<Rightarrow> fault + 'w handle" where
  "cvector_clone alloc None to = Inl AssertFailed"
| "cvector_clone alloc (Some v) (Some t) = Inl AssertFailed"
| "cvector_clone alloc (Some v) None =
     bind_r (cvector_capacity (Some v)) (\<lambda>c.
     bind_r (cvector_element_size (Some v)) (\<lambda>es.
     let heap_size = HEADER_SIZE + (c * es) in
     if \<not> alloc (unat heap_size) then Inl NullDeref
     else if block_size v < unat heap_size then Inl OutOfBounds
     else if heap_size < HEADER_SIZE then Inl OutOfBounds
     else Inr (Some (v\<lparr>storage := take (unat heap_size - unat (HEADER_SIZE :: 'w word)) (storage v)\<rparr>))))"

text \<open>
  \<^verbatim>\<open>cvector_swap(char **vec, char **other)\<close>: \<open>vec\<close> is the handle \<^verbatim>\<open>*vec\<close>; \<open>other\<close> is
  \<open>None\<close> when the pointer \<^verbatim>\<open>other\<close> is null and \<open>Some h\<close> when it points to the handle
  \<open>h\<close> (which may itself be null). The result is the pair of handles left in \<^verbatim>\<open>*vec\<close>
  and \<^verbatim>\<open>*other\<close>.
\<close>

fun cvector_swap :: "('w::len) handle \<Rightarrow> 'w handle option \<Rightarrow> fault + ('w handle \<times> 'w handle option)" where
  "cvector_swap None other = Inl AssertFailed"
| "cvector_swap (Some v) None = Inr (Some v, None)"
| "cvector_swap (Some v) (Some h) = Inr (h, Some (Some v))"

definition cvector_shrink_to_fit :: "(nat \<Rightarrow> bool) \<Rightarrow> ('w::len) handle \<Rightarrow> fault + 'w handle" where
  "cvector_shrink_to_fit alloc vec =
     (if vec = None then Inl AssertFailed
      else bind_r (cvector_size vec) (\<lambda>vec_size. cvector_grow alloc vec vec_size))"

text \<open>
  \<^verbatim>\<open>cvector_get\<close> returns a pointer into the block, here its offset from the start of
  the block, or the null pointer \<open>None\<close>. The test \<^verbatim>\<open>index < 0\<close> is never true of a
  \<^verbatim>\<open>size_t\<close>.
\<close>

fun cvector_get :: "('w::len) handle \<Rightarrow> 'w word \<Rightarrow> fault + nat option" where
  "cvector_get None index = Inl AssertFailed"
| "cvector_get (Some v) index =
     bind_r (cvector_size (Some v)) (\<lambda>sz.
     if index \<ge> sz then Inr None
     else bind_r (cvector_element_size (Some v)) (\<lambda>es.
       Inr (Some (unat (HEADER_SIZE :: 'w word) + unat (index * es)))))"

text \<open>The two loops of \<^verbatim>\<open>cvector_resize\<close>; \<open>old_size\<close> is the local counter.\<close>

function resize_push_loop ::
  "(nat \<Rightarrow> bool) \<Rightarrow> ('w::len) handle \<Rightarrow> 'w word \<Rightarrow> 'w word \<Rightarrow> cell list \<Rightarrow> fault + 'w handle" where
  "resize_push_loop alloc vec old_size new_size value =
     (if old_size < new_size
      then bind_r (cvector_push_back alloc vec value) (\<lambda>vec.
             resize_push_loop alloc vec (old_size + 1) new_size value)
      else Inr vec)"
  by pat_completeness auto
termination
proof (relation "measure (\<lambda>(alloc, vec, old_size, new_size, value). unat new_size - unat old_size)")
  show "wf (measure (\<lambda>(alloc, vec, old_size, new_size, value). unat (new_size :: 'a word) - unat old_size))"
    by simp
next
  fix alloc :: "nat \<Rightarrow> bool" and vec :: "'a handle" and old_size new_size :: "'a word"
    and "value" :: "cell list" and x :: "'a handle"
  assume "old_size < new_size"
  then have "unat old_size < unat new_size" "unat (old_size + 1) = Suc (unat old_size)"
    by unat_arith+
  then show "((alloc, x, old_size + 1, new_size, value), (alloc, vec, old_size, new_size, value))
       \<in> measure (\<lambda>(alloc, vec, old_size, new_size, value). unat new_size - unat old_size)"
    by simp
qed

function resize_pop_loop :: "('w::len) handle \<Rightarrow> 'w word \<Rightarrow> 'w word \<Rightarrow> fault + 'w handle" where
  "resize_pop_loop vec old_size new_size =
     (if new_size < old_size
      then bind_r (cvector_pop_back vec) (\<lambda>vec. resize_pop_loop vec (old_size - 1) new_size)
      else Inr vec)"
  by pat_completeness auto
termination
proof (relation "measure (\<lambda>(vec, old_size, new_size). unat old_size)")
  show "wf (measure (\<lambda>(vec, old_size, new_size). unat (old_size :: 'a word)))"
    by simp
next
  fix vec x :: "'a handle" and old_size new_size :: "'a word"
  assume "new_size < old_size"
  then have "unat (old_size - 1) < unat old_size"
    by unat_arith
  then show "((x, old_size - 1, new_size), (vec, old_size, new_size))
       \<in> measure (\<lambda>(vec, old_size, new_size). unat old_size)"
    by simp
qed

text \<open>
  \<^verbatim>\<open>cvector_resize(char **vec, ...)\<close>: \<open>None\<close> is a null \<^verbatim>\<open>vec\<close>, which the assertion
  stops; the size is then read through \<^verbatim>\<open>*vec\<close> without a test. On the growing path the
  size field is set to 0 and the loop pushes \<open>value\<close> once for every count from the old
  size up to \<open>new_size\<close>.
\<close>

fun cvector_resize ::
  "(nat \<Rightarrow> bool) \<Rightarrow> ('w::len) handle option \<Rightarrow> 'w word \<Rightarrow> cell list \<Rightarrow> fault + 'w handle" where
  "cvector_resize alloc None new_size value = Inl AssertFailed"
| "cvector_resize alloc (Some None) new_size value = Inl NullDeref"
| "cvector_resize alloc (Some (Some v)) new_size value =
     (let old_size = size_f v in
      if new_size > old_size
      then bind_r (cvector_reserve alloc (Some v) new_size) (\<lambda>vec.
           bind_r (cvector_set_size vec 0) (\<lambda>vec.
           resize_push_loop alloc vec old_size new_size value))
      else resize_pop_loop (Some v) old_size new_size)"

section \<open>Well-formed vectors and what a caller observes\<close>

text \<open>
  The data model of a vector in use: the size does not exceed the capacity, the bytes
  behind the header are exactly \<open>capacity * element_size\<close> many, and the length of the
  whole block is a value of \<^verbatim>\<open>size_t\<close>.
\<close>

definition wf_cvector :: "('w::len) cvector \<Rightarrow> bool" where
  "wf_cvector v \<longleftrightarrow>
     size_f v \<le> capacity_f v \<and>
     length (storage v) = unat (capacity_f v) * unat (element_size_f v) \<and>
     unat (HEADER_SIZE :: 'w word) + unat (capacity_f v) * unat (element_size_f v) < 2 ^ LENGTH('w)"

text \<open>The bytes of the elements \<open>0, \<dots>, size - 1\<close>, in order: the element sequence.\<close>

definition element_bytes :: "('w::len) cvector \<Rightarrow> cell list" where
  "element_bytes v = take (unat (size_f v) * unat (element_size_f v)) (storage v)"

text \<open>A run of consecutive \<^verbatim>\<open>cvector_push_back\<close> calls, one for each value of the list.\<close>

fun push_all :: "(nat \<Rightarrow> bool) \<Rightarrow> ('w::len) handle \<Rightarrow> cell list list \<Rightarrow> fault + 'w handle" where
  "push_all alloc vec [] = Inr vec"
| "push_all alloc vec (x # xs) =
     bind_r (cvector_push_back alloc vec x) (\<lambda>vec. push_all alloc vec xs)"

text \<open>
  The capacity after \<open>n\<close> appends to an empty vector of capacity 0 as the specification
  describes it, over the natural numbers: it stays while the size fits and becomes
  \<open>max 1 (2 * capacity)\<close> when the size would exceed it.
\<close>

fun spec_doubling_capacity :: "nat \<Rightarrow> nat" where
  "spec_doubling_capacity 0 = 0"
| "spec_doubling_capacity (Suc n) =
     (if n < spec_doubling_capacity n then spec_doubling_capacity n else max 1 (2 * spec_doubling_capacity n))"

text \<open>
  The capacity that \<^verbatim>\<open>cvector_push_back\<close> and \<^verbatim>\<open>cvector_insert\<close> leave: they grow to
  \<^verbatim>\<open>cvector_compute_next_grow(capacity)\<close> when \<^verbatim>\<open>capacity <= size\<close> and keep the capacity
  otherwise.
\<close>

definition grown_capacity :: "('w::len) cvector \<Rightarrow> 'w word" where
  "grown_capacity v =
     (if capacity_f v \<le> size_f v then cvector_compute_next_grow (capacity_f v) else capacity_f v)"

text \<open>The first invariant of the data model, for the vector behind a handle.\<close>

definition size_within_capacity :: "('w::len) handle \<Rightarrow> bool" where
  "size_within_capacity h = (case h of None \<Rightarrow> False | Some v \<Rightarrow> size_f v \<le> capacity_f v)"

section \<open>Properties\<close>

lemma minus_one_unat: "unat (- 1 :: 'w::len word) = 2 ^ LENGTH('w) - 1"
  by (simp only: unsigned_minus_1_eq_mask mask_eq_exp_minus_1)

text \<open>
  C9. \<^verbatim>\<open>cvector_pop_back\<close> on a vector whose size is 0 returns normally, no assertion
  and no error: the size field is decremented in \<^verbatim>\<open>size_t\<close> and holds \<open>2 ^ w - 1\<close>
  afterwards, \<open>w\<close> the width of the field; the other fields and the bytes are untouched.
\<close>

theorem pop_back_empty_wraps:
  "cvector_pop_back (Some (v\<lparr>size_f := 0\<rparr>)) = Inr (Some (v\<lparr>size_f := - 1\<rparr>)) \<and>
   unat (size_f (v\<lparr>size_f := - 1 :: 'w::len word\<rparr>)) = 2 ^ LENGTH('w) - 1"
  by (simp add: cvector_pop_back_def minus_one_unat)

subsection \<open>Offsets in a well-formed vector\<close>

text \<open>
  In a well-formed vector no offset of a slot up to the capacity wraps around: the
  products and sums of \<^verbatim>\<open>size_t\<close> values are the products and sums of the numbers.
\<close>

lemma wf_offsets:
  fixes v :: "('w::len) cvector"
  assumes "wf_cvector v" and "i \<le> capacity_f v"
  shows "unat (i * element_size_f v) = unat i * unat (element_size_f v)"
    and "unat (element_size_f v * i) = unat i * unat (element_size_f v)"
    and "unat (HEADER_SIZE + i * element_size_f v) = unat (HEADER_SIZE :: 'w::len word) + unat i * unat (element_size_f v)"
    and "unat i * unat (element_size_f v) \<le> length (storage v)"
proof -
  have le: "unat i \<le> unat (capacity_f v)"
    using assms(2) by (simp add: word_le_nat_alt)
  then have m: "unat i * unat (element_size_f v) \<le> unat (capacity_f v) * unat (element_size_f v)"
    by (rule mult_le_mono1)
  from assms(1) have b: "unat (HEADER_SIZE :: 'w word) + unat (capacity_f v) * unat (element_size_f v) < 2 ^ LENGTH('w)"
    and l: "length (storage v) = unat (capacity_f v) * unat (element_size_f v)"
    by (simp_all add: wf_cvector_def)
  from m b have "unat i * unat (element_size_f v) < 2 ^ LENGTH('w)" by linarith
  then show 1: "unat (i * element_size_f v) = unat i * unat (element_size_f v)"
    by (simp add: unat_mult_lem [THEN iffD1])
  then show "unat (element_size_f v * i) = unat i * unat (element_size_f v)"
    by (simp add: mult.commute)
  from m b have "unat (HEADER_SIZE :: 'w word) + unat (i * element_size_f v) < 2 ^ LENGTH('w)"
    unfolding 1 by linarith
  then show "unat (HEADER_SIZE + i * element_size_f v) = unat (HEADER_SIZE :: 'w::len word) + unat i * unat (element_size_f v)"
    using 1 by (simp add: unat_add_lem [THEN iffD1])
  from m l show "unat i * unat (element_size_f v) \<le> length (storage v)" by simp
qed

lemma resize_storage_shrink: "n \<le> length bs \<Longrightarrow> resize_storage bs n = take n bs"
  by (simp add: resize_storage_def)

subsection \<open>Reading a slot\<close>

text \<open>
  C6. For a well-formed vector behind a non-null handle, \<^verbatim>\<open>cvector_get(vec, i)\<close> returns
  the pointer at offset \<open>HEADER_SIZE + i * element_size\<close> from the start of the block when
  \<open>i < size\<close>, and that slot of \<open>element_size\<close> bytes lies inside the block; for every
  \<open>i \<ge> size\<close>, on an empty vector too, it returns the null pointer.
\<close>

theorem get_in_range:
  fixes v :: "('w::len) cvector"
  assumes "wf_cvector v"
  shows "cvector_get (Some v) i =
           Inr (if i < size_f v
                then Some (unat (HEADER_SIZE :: 'w::len word) + unat i * unat (element_size_f v))
                else None) \<and>
         (i < size_f v \<longrightarrow>
            unat (HEADER_SIZE :: 'w word) + unat i * unat (element_size_f v) + unat (element_size_f v)
              \<le> block_size v)"
proof -
  have "unat i * unat (element_size_f v) + unat (element_size_f v) \<le> length (storage v)"
    if "i < size_f v"
  proof -
    from that assms have "Suc (unat i) \<le> unat (capacity_f v)"
      by (simp add: wf_cvector_def word_less_nat_alt word_le_nat_alt)
    then have "Suc (unat i) * unat (element_size_f v) \<le> unat (capacity_f v) * unat (element_size_f v)"
      by (rule mult_le_mono1)
    with assms show ?thesis by (simp add: wf_cvector_def)
  qed
  moreover have "unat (i * element_size_f v) = unat i * unat (element_size_f v)" if "i < size_f v"
    using that assms wf_offsets(1) [of v i] by (simp add: wf_cvector_def word_less_nat_alt word_le_nat_alt)
  ultimately show ?thesis
    by (auto simp: block_size_def not_le)
qed

theorem get_in_range_witness:
  "wf_cvector \<lparr>size_f = 2 :: 64 word, capacity_f = 2, element_size_f = 4, storage = replicate 8 None\<rparr> \<and>
   cvector_get (Some \<lparr>size_f = 2 :: 64 word, capacity_f = 2, element_size_f = 4, storage = replicate 8 None\<rparr>) 1
     = Inr (Some 28) \<and>
   cvector_get (Some \<lparr>size_f = 2 :: 64 word, capacity_f = 2, element_size_f = 4, storage = replicate 8 None\<rparr>) 2
     = Inr None"
proof -
  let ?v = "\<lparr>size_f = 2 :: 64 word, capacity_f = 2, element_size_f = 4, storage = replicate 8 None\<rparr>"
  have h: "wf_cvector ?v"
    by (simp add: wf_cvector_def HEADER_SIZE_def)
  from get_in_range [OF h, of 1] get_in_range [OF h, of 2] h show ?thesis
    by (simp add: HEADER_SIZE_def word_less_nat_alt)
qed

subsection \<open>Shrinking to the size\<close>

text \<open>
  C8. On a well-formed vector behind a non-null handle \<^verbatim>\<open>cvector_shrink_to_fit\<close> always
  issues the reallocation, for \<open>HEADER_SIZE + size * element_size\<close> bytes, also when the
  capacity already equals the size: if the allocator refuses, the assertion fails; if it
  grants, the capacity is exactly the size, and the size, the element size and the bytes
  of all stored elements are as before.
\<close>

theorem shrink_to_fit_exact:
  fixes v :: "('w::len) cvector"
  assumes "wf_cvector v"
  shows "cvector_shrink_to_fit alloc (Some v) =
           (if alloc (unat (HEADER_SIZE :: 'w word) + unat (size_f v) * unat (element_size_f v))
            then Inr (Some (v\<lparr>capacity_f := size_f v, storage := element_bytes v\<rparr>))
            else Inl AssertFailed) \<and>
         element_bytes (v\<lparr>capacity_f := size_f v, storage := element_bytes v\<rparr>) = element_bytes v \<and>
         wf_cvector (v\<lparr>capacity_f := size_f v, storage := element_bytes v\<rparr>)"
proof -
  from assms have sc: "size_f v \<le> capacity_f v" by (simp add: wf_cvector_def)
  note o = wf_offsets [OF assms sc]
  have n: "unat (HEADER_SIZE + size_f v * element_size_f v)
             = unat (HEADER_SIZE :: 'w word) + unat (size_f v) * unat (element_size_f v)"
    by (rule o(3))
  have nlt: "\<not> HEADER_SIZE + size_f v * element_size_f v < (HEADER_SIZE :: 'w word)"
    by (simp add: word_less_nat_alt n)
  have 1: "cvector_shrink_to_fit alloc (Some v) =
           (if alloc (unat (HEADER_SIZE :: 'w word) + unat (size_f v) * unat (element_size_f v))
            then Inr (Some (v\<lparr>capacity_f := size_f v, storage := element_bytes v\<rparr>))
            else Inl AssertFailed)"
    using o(4) by (simp add: cvector_shrink_to_fit_def realloc_m_def n nlt
        resize_storage_shrink element_bytes_def)
  have 2: "element_bytes (v\<lparr>capacity_f := size_f v, storage := element_bytes v\<rparr>) = element_bytes v"
    by (simp add: element_bytes_def)
  have 3: "wf_cvector (v\<lparr>capacity_f := size_f v, storage := element_bytes v\<rparr>)"
  proof -
    from assms have "length (storage v) = unat (capacity_f v) * unat (element_size_f v)"
      and "unat (HEADER_SIZE :: 'w word) + unat (capacity_f v) * unat (element_size_f v) < 2 ^ LENGTH('w)"
      by (simp_all add: wf_cvector_def)
    with o(4) have "unat (HEADER_SIZE :: 'w word) + unat (size_f v) * unat (element_size_f v) < 2 ^ LENGTH('w)"
      by linarith
    with o(4) show ?thesis by (simp add: wf_cvector_def element_bytes_def)
  qed
  from 1 2 3 show ?thesis by blast
qed

theorem shrink_to_fit_exact_witness:
  "wf_cvector \<lparr>size_f = 1 :: 64 word, capacity_f = 2, element_size_f = 2, storage = [Some 1, Some 2, None, None]\<rparr> \<and>
   cvector_shrink_to_fit (\<lambda>n. True) (Some \<lparr>size_f = 1 :: 64 word, capacity_f = 2, element_size_f = 2, storage = [Some 1, Some 2, None, None]\<rparr>)
     = Inr (Some \<lparr>size_f = 1, capacity_f = 1, element_size_f = 2, storage = [Some 1, Some 2]\<rparr>)"
proof -
  let ?v = "\<lparr>size_f = 1 :: 64 word, capacity_f = 2, element_size_f = 2, storage = [Some 1, Some 2, None, None]\<rparr>"
  have h: "wf_cvector ?v"
    by (simp add: wf_cvector_def HEADER_SIZE_def)
  from shrink_to_fit_exact [OF h, of "\<lambda>n. True"] h show ?thesis
    by (simp add: element_bytes_def)
qed

subsection \<open>Removing an element\<close>

text \<open>
  C10. For a well-formed vector behind a non-null handle and every index \<open>i < size\<close>,
  \<^verbatim>\<open>cvector_remove(vec, i)\<close> returns, leaves the capacity field, the element size field
  and the length of the block as they were, sets the size to \<open>size - 1\<close>, and leaves the
  bytes of every element at an index below \<open>i\<close> unchanged.
\<close>

theorem remove_frame:
  fixes v :: "('w::len) cvector"
  assumes "wf_cvector v" and "i < size_f v"
  shows "\<exists>v'. cvector_remove (Some v) i = Inr (Some v') \<and>
           capacity_f v' = capacity_f v \<and>
           element_size_f v' = element_size_f v \<and>
           size_f v' = size_f v - 1 \<and>
           length (storage v') = length (storage v) \<and>
           take (unat i * unat (element_size_f v)) (storage v') =
             take (unat i * unat (element_size_f v)) (storage v)"
proof -
  let ?es = "unat (element_size_f v)"
  let ?h = "unat (HEADER_SIZE :: 'w word)"
  from assms have sc: "size_f v \<le> capacity_f v" by (simp add: wf_cvector_def)
  from assms have ic: "i \<le> capacity_f v" and i1: "Suc (unat i) \<le> unat (size_f v)"
    and s1: "unat (size_f v) \<le> unat (capacity_f v)"
    by (simp_all add: wf_cvector_def word_less_nat_alt word_le_nat_alt)
  have rest: "size_f v - 1 - i \<le> capacity_f v" and urest: "unat (size_f v - 1 - i) = unat (size_f v) - 1 - unat i"
    using assms(2) sc by unat_arith+
  note oi = wf_offsets [OF assms(1) ic]
  note orr = wf_offsets [OF assms(1) rest]
  have tot: "(unat i + 1 + (unat (size_f v) - 1 - unat i)) * ?es \<le> length (storage v)"
  proof -
    have "unat i + 1 + (unat (size_f v) - 1 - unat i) = unat (size_f v)" using i1 by simp
    then show ?thesis using wf_offsets(4) [OF assms(1) sc] by simp
  qed
  then have tot': "unat i * ?es + ?es + (unat (size_f v) - 1 - unat i) * ?es \<le> length (storage v)"
    by (simp add: algebra_simps)
  show ?thesis
    using assms(2) tot'
    by (auto simp: Let_def oi orr urest load_bytes_def store_bytes_def block_size_def not_le)
qed

theorem remove_frame_witness:
  "wf_cvector \<lparr>size_f = 3 :: 64 word, capacity_f = 4, element_size_f = 1, storage = [Some 1, Some 2, Some 3, None]\<rparr> \<and>
   (1 :: 64 word) < size_f \<lparr>size_f = 3 :: 64 word, capacity_f = 4, element_size_f = 1, storage = [Some 1, Some 2, Some 3, None]\<rparr> \<and>
   (\<exists>v'. cvector_remove (Some \<lparr>size_f = 3 :: 64 word, capacity_f = 4, element_size_f = 1, storage = [Some 1, Some 2, Some 3, None]\<rparr>) 1 = Inr (Some v') \<and>
      capacity_f v' = 4 \<and> element_size_f v' = 1 \<and> size_f v' = 2 \<and> take 1 (storage v') = [Some 1])"
proof -
  let ?v = "\<lparr>size_f = 3 :: 64 word, capacity_f = 4, element_size_f = 1, storage = [Some 1, Some 2, Some 3, None]\<rparr>"
  have h: "wf_cvector ?v"
    by (simp add: wf_cvector_def HEADER_SIZE_def word_le_nat_alt)
  have i: "(1 :: 64 word) < size_f ?v"
    by (simp add: word_less_nat_alt)
  from remove_frame [OF h i] h i show ?thesis
    by (auto simp del: cvector_remove.simps)
qed

subsection \<open>Swapping two handles\<close>

text \<open>
  C3, as the code has it. The guard of \<^verbatim>\<open>cvector_swap\<close> tests the pointer \<^verbatim>\<open>other\<close>,
  not the handle it points to. With a non-null first vector, a null \<^verbatim>\<open>other\<close> leaves the
  first handle unchanged; an \<^verbatim>\<open>other\<close> that points to a null handle is exchanged like
  any other: the first handle becomes null and the second receives the vector.
\<close>

theorem swap_null_pointer:
  "cvector_swap (Some v) None = Inr (Some v, None) \<and>
   cvector_swap (Some v) (Some None) = Inr (None, Some (Some v))"
  by simp

text \<open>
  The call \<^verbatim>\<open>cvector_swap(&a, &b)\<close> with \<open>b\<close> null and \<open>a\<close> a vector holding one byte:
  afterwards \<open>a\<close> is null.
\<close>

theorem swap_null_handle_counterexample:
  "cvector_swap (Some \<lparr>size_f = 1 :: 64 word, capacity_f = 1, element_size_f = 1, storage = [Some 7]\<rparr>) (Some None)
     = Inr (None, Some (Some \<lparr>size_f = 1, capacity_f = 1, element_size_f = 1, storage = [Some 7]\<rparr>))"
  by simp

subsection \<open>What the operations do to the header fields\<close>

lemma bind_r_Inr_iff: "bind_r m f = Inr y \<longleftrightarrow> (\<exists>x. m = Inr x \<and> f x = Inr y)"
  by (cases m) simp_all

lemma store_bytes_fields:
  assumes "store_bytes v off bs = Inr v'"
  shows "size_f v' = size_f v" "capacity_f v' = capacity_f v"
    "element_size_f v' = element_size_f v" "length (storage v') = length (storage v)"
  using assms by (auto simp: store_bytes_def block_size_def split: if_splits)

lemma memcpy_m_fields:
  assumes "memcpy_m h off src n = Inr h'"
  shows "\<exists>v v'. h = Some v \<and> h' = Some v' \<and> size_f v' = size_f v \<and> capacity_f v' = capacity_f v \<and>
           element_size_f v' = element_size_f v \<and> length (storage v') = length (storage v)"
  using assms
  by (cases h) (auto simp: bind_r_Inr_iff split: if_splits dest: store_bytes_fields)

lemma memmove_m_fields:
  assumes "memmove_m h dst src n = Inr h'"
  shows "\<exists>v v'. h = Some v \<and> h' = Some v' \<and> size_f v' = size_f v \<and> capacity_f v' = capacity_f v \<and>
           element_size_f v' = element_size_f v \<and> length (storage v') = length (storage v)"
  using assms
  by (cases h) (auto simp: bind_r_Inr_iff split: if_splits dest: store_bytes_fields)

lemma grow_result:
  fixes v :: "('w::len) cvector"
  assumes "cvector_grow alloc (Some v) new_capacity = Inr h"
  shows "h = Some (v\<lparr>capacity_f := new_capacity,
                     storage := resize_storage (storage v)
                       (unat (HEADER_SIZE + new_capacity * element_size_f v) - unat (HEADER_SIZE :: 'w word))\<rparr>)"
    and "alloc (unat (HEADER_SIZE + new_capacity * element_size_f v))"
    and "\<not> HEADER_SIZE + new_capacity * element_size_f v < HEADER_SIZE"
  using assms by (auto simp: realloc_m_def bind_r_Inr_iff split: if_splits)


lemma push_back_fields:
  fixes v :: "('w::len) cvector"
  assumes "cvector_push_back alloc (Some v) value = Inr h"
  shows "\<exists>v'. h = Some v' \<and> size_f v' = size_f v + 1 \<and> element_size_f v' = element_size_f v \<and>
           capacity_f v' = grown_capacity v"
proof (cases "capacity_f v \<le> size_f v")
  case True
  with assms obtain h1 where g: "cvector_grow alloc (Some v) (cvector_compute_next_grow (capacity_f v)) = Inr h1"
    by (auto simp: cvector_push_back_def bind_r_Inr_iff)
  from grow_result(1) [OF g] obtain v1 where h1: "h1 = Some v1" and f1: "size_f v1 = size_f v"
    "element_size_f v1 = element_size_f v" "capacity_f v1 = cvector_compute_next_grow (capacity_f v)"
    by simp
  from assms True g h1 obtain h2 where m: "memcpy_m (Some v1) (unat (HEADER_SIZE :: 'w word) + unat (element_size_f v1 * size_f v1)) value (unat (element_size_f v1)) = Inr h2"
    and r: "bind_r (cvector_size h2) (\<lambda>sz. cvector_set_size h2 (sz + 1)) = Inr h"
    by (auto simp: cvector_push_back_def bind_r_Inr_iff Let_def)
  from memcpy_m_fields [OF m] obtain v2 where "h2 = Some v2" "size_f v2 = size_f v1"
    "capacity_f v2 = capacity_f v1" "element_size_f v2 = element_size_f v1"
    by auto
  with r f1 True show ?thesis
    by (auto simp: grown_capacity_def)
next
  case False
  with assms obtain h2 where m: "memcpy_m (Some v) (unat (HEADER_SIZE :: 'w word) + unat (element_size_f v * size_f v)) value (unat (element_size_f v)) = Inr h2"
    and r: "bind_r (cvector_size h2) (\<lambda>sz. cvector_set_size h2 (sz + 1)) = Inr h"
    by (auto simp: cvector_push_back_def bind_r_Inr_iff Let_def)
  from memcpy_m_fields [OF m] obtain v2 where "h2 = Some v2" "size_f v2 = size_f v"
    "capacity_f v2 = capacity_f v" "element_size_f v2 = element_size_f v"
    by auto
  with r False show ?thesis
    by (auto simp: grown_capacity_def)
qed

lemma push_bit_1_word: "push_bit 1 c = c + (c :: 'w::len word)"
  by (simp only: push_bit_eq_mult power_one_right mult_2_right)

lemma next_grow_neq: "cvector_compute_next_grow c \<noteq> (c :: 'w::len word)"
proof
  assume a: "cvector_compute_next_grow c = c"
  show False
  proof (cases "c = 0")
    case True
    with a show False by (simp add: cvector_compute_next_grow_def)
  next
    case False
    with a have "c + c = c" by (simp add: cvector_compute_next_grow_def push_bit_1_word)
    then have "c = 0" by simp
    with False show False by simp
  qed
qed

subsection \<open>Append followed by pop\<close>

text \<open>
  C2, as the code has it. Whenever \<^verbatim>\<open>cvector_push_back\<close> and the \<^verbatim>\<open>cvector_pop_back\<close>
  after it return, the size field (and the element size) is what it was before the
  push. The capacity field is what it was exactly when the size was below the capacity;
  when \<^verbatim>\<open>capacity <= size\<close> the push has grown the block and the capacity stays at
  \<^verbatim>\<open>cvector_compute_next_grow(capacity)\<close>, since \<^verbatim>\<open>cvector_pop_back\<close> never shrinks.
\<close>

theorem push_pop_fields:
  fixes v :: "('w::len) cvector"
  assumes "cvector_push_back alloc (Some v) value = Inr h1"
    and "cvector_pop_back h1 = Inr h2"
  shows "\<exists>v2. h2 = Some v2 \<and> size_f v2 = size_f v \<and> element_size_f v2 = element_size_f v \<and>
           capacity_f v2 =
             (if capacity_f v \<le> size_f v then cvector_compute_next_grow (capacity_f v)
              else capacity_f v) \<and>
           (capacity_f v2 = capacity_f v \<longleftrightarrow> size_f v < capacity_f v)"
proof -
  from push_back_fields [OF assms(1)] obtain v1 where v1: "h1 = Some v1" "size_f v1 = size_f v + 1"
    "element_size_f v1 = element_size_f v" "capacity_f v1 = grown_capacity v"
    by blast
  with assms(2) have "h2 = Some (v1\<lparr>size_f := size_f v\<rparr>)"
    by (simp add: cvector_pop_back_def)
  with v1 show ?thesis
    using next_grow_neq [of "capacity_f v"] by (auto simp: grown_capacity_def not_le)
qed

theorem push_pop_fields_witness:
  "cvector_push_back (\<lambda>n. True)
     (Some \<lparr>size_f = 1 :: 64 word, capacity_f = 2, element_size_f = 1, storage = [Some 7, None]\<rparr>) [Some 5]
     = Inr (Some \<lparr>size_f = 2, capacity_f = 2, element_size_f = 1, storage = [Some 7, Some 5]\<rparr>) \<and>
   cvector_pop_back (Some \<lparr>size_f = 2 :: 64 word, capacity_f = 2, element_size_f = 1, storage = [Some 7, Some 5]\<rparr>)
     = Inr (Some \<lparr>size_f = 1, capacity_f = 2, element_size_f = 1, storage = [Some 7, Some 5]\<rparr>) \<and>
   (capacity_f \<lparr>size_f = 1 :: 64 word, capacity_f = 2, element_size_f = 1, storage = [Some 7, Some 5]\<rparr> = 2
      \<longleftrightarrow> size_f \<lparr>size_f = 1 :: 64 word, capacity_f = 2, element_size_f = 1, storage = [Some 7, None]\<rparr> < 2)"
proof -
  have p: "cvector_push_back (\<lambda>n. True)
     (Some \<lparr>size_f = 1 :: 64 word, capacity_f = 2, element_size_f = 1, storage = [Some 7, None]\<rparr>) [Some 5]
     = Inr (Some \<lparr>size_f = 2, capacity_f = 2, element_size_f = 1, storage = [Some 7, Some 5]\<rparr>)"
    by code_simp
  have q: "cvector_pop_back (Some \<lparr>size_f = 2 :: 64 word, capacity_f = 2, element_size_f = 1, storage = [Some 7, Some 5]\<rparr>)
     = Inr (Some \<lparr>size_f = 1, capacity_f = 2, element_size_f = 1, storage = [Some 7, Some 5]\<rparr>)"
    by code_simp
  from push_pop_fields [OF p q] p q show ?thesis
    by simp
qed

text \<open>
  A fresh vector (size 0, capacity 0, one-byte elements): after a push and a pop its
  capacity is 1.
\<close>

theorem push_pop_capacity_counterexample:
  "bind_r (cvector_push_back (\<lambda>n. True)
             (Some \<lparr>size_f = 0 :: 64 word, capacity_f = 0, element_size_f = 1, storage = []\<rparr>) [Some 5])
          cvector_pop_back
     = Inr (Some \<lparr>size_f = 0, capacity_f = 1, element_size_f = 1, storage = [Some 5]\<rparr>)"
  by code_simp

subsection \<open>Doubling growth\<close>

text \<open>
  The capacities of the specification are the powers of two: after \<open>n > 0\<close> appends the
  capacity is the least power of two that is at least \<open>n\<close>.
\<close>

lemma spec_doubling_capacity_pow2:
  "0 < n \<Longrightarrow> \<exists>k. spec_doubling_capacity n = 2 ^ k \<and> n \<le> 2 ^ k \<and> 2 ^ k < 2 * n"
proof (induction n)
  case 0
  then show ?case by simp
next
  case (Suc n)
  show ?case
  proof (cases "n = 0")
    case True
    have "spec_doubling_capacity (Suc 0) = 2 ^ 0 \<and> Suc 0 \<le> 2 ^ 0 \<and> (2::nat) ^ 0 < 2 * Suc 0"
      by simp
    with True show ?thesis by blast
  next
    case False
    with Suc.IH obtain k where k: "spec_doubling_capacity n = 2 ^ k" "n \<le> 2 ^ k" "(2::nat) ^ k < 2 * n"
      by auto
    show ?thesis
    proof (cases "n < spec_doubling_capacity n")
      case True
      with k have "spec_doubling_capacity (Suc n) = 2 ^ k \<and> Suc n \<le> 2 ^ k \<and> (2::nat) ^ k < 2 * Suc n"
        by simp
      then show ?thesis by blast
    next
      case False
      with k have n: "n = 2 ^ k" by simp
      from False k have "spec_doubling_capacity (Suc n) = 2 * 2 ^ k"
        by simp
      with n have "spec_doubling_capacity (Suc n) = 2 ^ Suc k \<and> Suc n \<le> 2 ^ Suc k \<and> (2::nat) ^ Suc k < 2 * Suc n"
        by simp
      then show ?thesis by blast
    qed
  qed
qed

lemma spec_doubling_capacity_ge: "n \<le> spec_doubling_capacity n"
  using spec_doubling_capacity_pow2 [of n] by (cases "n = 0") auto

lemma spec_doubling_capacity_less: "0 < n \<Longrightarrow> spec_doubling_capacity n < 2 * n"
  using spec_doubling_capacity_pow2 [of n] by auto

lemma spec_doubling_capacity_power: "spec_doubling_capacity (2 ^ k) = 2 ^ k"
proof -
  obtain j where j: "spec_doubling_capacity (2 ^ k) = 2 ^ j" "(2::nat) ^ k \<le> 2 ^ j" "(2::nat) ^ j < 2 * 2 ^ k"
    using spec_doubling_capacity_pow2 [of "2 ^ k"] by auto
  from j(2) have "k \<le> j" by simp
  moreover from j(3) have "(2::nat) ^ j < 2 ^ Suc k" by simp
  then have "j < Suc k" using power_less_imp_less_exp [of 2 j "Suc k"] by simp
  ultimately have "j = k" by simp
  with j(1) show ?thesis by simp
qed

lemma push_all_append:
  "push_all alloc h (xs @ ys) = bind_r (push_all alloc h xs) (\<lambda>h'. push_all alloc h' ys)"
proof (induction xs arbitrary: h)
  case Nil
  show ?case by simp
next
  case (Cons x xs)
  show ?case
    by (cases "cvector_push_back alloc h x") (simp_all add: Cons.IH)
qed

lemma unat_next_grow:
  fixes c :: "'w::len word"
  assumes "unat c < 2 ^ (LENGTH('w) - 1)"
  shows "unat (cvector_compute_next_grow c) = max 1 (2 * unat c)"
proof (cases "c = 0")
  case True
  then show ?thesis by (simp add: cvector_compute_next_grow_def)
next
  case False
  then have pos: "0 < unat c" by (simp add: unat_gt_0)
  have "2 * (2::nat) ^ (LENGTH('w) - 1) = 2 ^ LENGTH('w)"
    by (cases "LENGTH('w)") simp_all
  with assms have "unat c + unat c < 2 ^ LENGTH('w)" by linarith
  then have "unat (c + c) = unat c + unat c"
    by (rule unat_add_lem [THEN iffD1])
  then have "unat (push_bit 1 c) = 2 * unat c"
    by (simp only: push_bit_1_word mult_2)
  with False pos show ?thesis
    by (simp add: cvector_compute_next_grow_def)
qed


lemma unat_Suc_word:
  fixes x :: "'w::len word"
  assumes "Suc (unat x) < 2 ^ LENGTH('w)"
  shows "unat (x + 1) = Suc (unat x)"
  using assms unat_add_lem [of x 1] by simp

text \<open>
  C5, as the code has it. Start from a vector of size 0 and capacity 0 and run any
  sequence of at most \<open>2 ^ (w - 1)\<close> consecutive \<^verbatim>\<open>cvector_push_back\<close> calls, \<open>w\<close> the width
  of \<^verbatim>\<open>size_t\<close>. If the calls return, the size is the number of calls and the capacity
  is the one the doubling policy gives: it becomes \<open>max 1 (2 * capacity)\<close> whenever the size
  would exceed it, which makes the capacities 1, 2, 4, 8, \<dots>
\<close>

theorem push_back_doubling:
  fixes v :: "('w::len) cvector"
  assumes "size_f v = 0" and "capacity_f v = 0"
    and "length vs \<le> 2 ^ (LENGTH('w) - 1)"
    and "push_all alloc (Some v) vs = Inr h"
  shows "\<exists>v'. h = Some v' \<and> unat (size_f v') = length vs \<and>
           unat (capacity_f v') = spec_doubling_capacity (length vs)"
  using assms(3,4)
proof (induction vs arbitrary: h rule: rev_induct)
  case Nil
  with assms(1,2) show ?case by auto
next
  case (snoc x xs)
  let ?n = "length xs"
  have half: "2 * (2::nat) ^ (LENGTH('w) - 1) = 2 ^ LENGTH('w)"
    by (cases "LENGTH('w)") simp_all
  from snoc.prems(1) have n: "?n < 2 ^ (LENGTH('w) - 1)" by simp
  from snoc.prems(2) obtain h1 where h1: "push_all alloc (Some v) xs = Inr h1"
    and p: "cvector_push_back alloc h1 x = Inr h"
    by (auto simp: push_all_append bind_r_Inr_iff)
  from snoc.IH [OF _ h1] n obtain v1 where v1: "h1 = Some v1" "unat (size_f v1) = ?n"
    "unat (capacity_f v1) = spec_doubling_capacity ?n"
    by auto
  from push_back_fields [OF p [unfolded v1(1)]] obtain v' where v': "h = Some v'"
    "size_f v' = size_f v1 + 1" "capacity_f v' = grown_capacity v1"
    by blast
  from n half have "Suc (unat (size_f v1)) < 2 ^ LENGTH('w)"
    unfolding v1(2) by linarith
  then have s: "unat (size_f v') = Suc ?n"
    unfolding v'(2) using v1(2) by (simp add: unat_Suc_word)
  have c: "unat (capacity_f v') = spec_doubling_capacity (Suc ?n)"
  proof (cases "?n < spec_doubling_capacity ?n")
    case True
    then have "\<not> capacity_f v1 \<le> size_f v1"
      by (simp add: word_le_nat_alt v1)
    with True show ?thesis by (simp add: v'(3) grown_capacity_def v1)
  next
    case False
    then have le: "capacity_f v1 \<le> size_f v1"
      by (simp add: word_le_nat_alt v1)
    from False n have "unat (capacity_f v1) < 2 ^ (LENGTH('w) - 1)"
      unfolding v1(3) by linarith
    from unat_next_grow [OF this] le False show ?thesis
      by (simp add: v'(3) grown_capacity_def v1)
  qed
  from v'(1) s c show ?case by simp
qed

theorem push_back_doubling_witness:
  "push_all (\<lambda>n. True)
     (Some \<lparr>size_f = 0 :: 64 word, capacity_f = 0, element_size_f = 1, storage = []\<rparr>)
     [[Some 1], [Some 2], [Some 3]]
   = Inr (Some \<lparr>size_f = 3, capacity_f = 4, element_size_f = 1, storage = [Some 1, Some 2, Some 3, None]\<rparr>) \<and>
   spec_doubling_capacity 3 = 4"
proof -
  have p: "push_all (\<lambda>n. True)
     (Some \<lparr>size_f = 0 :: 64 word, capacity_f = 0, element_size_f = 1, storage = []\<rparr>)
     [[Some 1], [Some 2], [Some 3]]
   = Inr (Some \<lparr>size_f = 3, capacity_f = 4, element_size_f = 1, storage = [Some 1, Some 2, Some 3, None]\<rparr>)"
    by code_simp
  from push_back_doubling [OF _ _ _ p] have "unat (4 :: 64 word) = spec_doubling_capacity (length [[Some (1 :: byte)], [Some 2], [Some 3]])"
    by simp
  with p show ?thesis
    by (simp del: push_all.simps spec_doubling_capacity.simps add: numeral_3_eq_3)
qed

lemma zero_width_push:
  "cvector_push_back (\<lambda>n. True)
     (Some \<lparr>size_f = s, capacity_f = c, element_size_f = 0, storage = []\<rparr>) []
   = Inr (Some \<lparr>size_f = s + 1,
                 capacity_f = (if c \<le> s then cvector_compute_next_grow c else c),
                 element_size_f = 0, storage = []\<rparr>)"
  by (simp add: cvector_push_back_def realloc_m_def resize_storage_def store_bytes_def
      block_size_def)

lemma zero_width_pushes:
  assumes "n \<le> 2 ^ (LENGTH('w::len) - 1)"
  shows "push_all (\<lambda>n. True)
           (Some \<lparr>size_f = 0 :: 'w word, capacity_f = 0, element_size_f = 0, storage = []\<rparr>)
           (replicate n [])
         = Inr (Some \<lparr>size_f = of_nat n, capacity_f = of_nat (spec_doubling_capacity n),
                       element_size_f = 0, storage = []\<rparr>)"
  using assms
proof (induction n)
  case 0
  show ?case by simp
next
  case (Suc n)
  have half: "2 * (2::nat) ^ (LENGTH('w) - 1) = 2 ^ LENGTH('w)"
    by (cases "LENGTH('w)") simp_all
  from Suc.prems have n: "n < 2 ^ (LENGTH('w) - 1)" by simp
  with half have n2: "n < 2 ^ LENGTH('w)" by linarith
  have d2: "spec_doubling_capacity n < 2 ^ LENGTH('w)"
  proof (cases "n = 0")
    case True
    then show ?thesis by simp
  next
    case False
    then have "spec_doubling_capacity n < 2 * n" by (simp add: spec_doubling_capacity_less)
    with n half show ?thesis by linarith
  qed
  have un: "unat (of_nat n :: 'w word) = n" and ud: "unat (of_nat (spec_doubling_capacity n) :: 'w word) = spec_doubling_capacity n"
    using n2 d2 by (simp_all add: unat_of_nat)
  have cap: "(if (of_nat (spec_doubling_capacity n) :: 'w word) \<le> of_nat n
              then cvector_compute_next_grow (of_nat (spec_doubling_capacity n))
              else of_nat (spec_doubling_capacity n)) = (of_nat (spec_doubling_capacity (Suc n)) :: 'w word)"
  proof (cases "n < spec_doubling_capacity n")
    case True
    then show ?thesis by (simp add: word_le_nat_alt un ud)
  next
    case False
    with n have "unat (of_nat (spec_doubling_capacity n) :: 'w word) < 2 ^ (LENGTH('w) - 1)"
      unfolding ud by linarith
    from unat_next_grow [OF this]
    have "unat (cvector_compute_next_grow (of_nat (spec_doubling_capacity n) :: 'w word)) = max 1 (2 * spec_doubling_capacity n)"
      unfolding ud .
    moreover have "unat (of_nat (max 1 (2 * spec_doubling_capacity n)) :: 'w word) = max 1 (2 * spec_doubling_capacity n)"
      using False n half by (simp add: unat_of_nat)
    ultimately have "cvector_compute_next_grow (of_nat (spec_doubling_capacity n) :: 'w word) = of_nat (max 1 (2 * spec_doubling_capacity n))"
      by (simp add: word_unat_eq_iff)
    with False show ?thesis by (simp add: word_le_nat_alt un ud)
  qed
  have "replicate (Suc n) ([] :: cell list) = replicate n [] @ [[]]"
    by (simp add: replicate_append_same)
  then show ?case
    using Suc.IH n by (simp only: push_all_append) (simp add: zero_width_push cap)
qed

text \<open>
  Beyond \<open>2 ^ (w - 1)\<close> the shift in \<^verbatim>\<open>cvector_compute_next_grow\<close> wraps around. With a
  32-bit \<^verbatim>\<open>size_t\<close> and elements of width 0 (the block never grows beyond its header)
  \<open>2 ^ 31 + 1\<close> appends to a fresh vector all return, and the capacity after the last
  one is 0, where the doubling policy over the natural numbers gives \<open>2 ^ 32\<close>.
\<close>

theorem push_back_doubling_counterexample:
  "push_all (\<lambda>n. True)
     (Some \<lparr>size_f = 0 :: 32 word, capacity_f = 0, element_size_f = 0, storage = []\<rparr>)
     (replicate (2 ^ 31) [] @ [[]])
   = Inr (Some \<lparr>size_f = 2 ^ 31 + 1, capacity_f = 0, element_size_f = 0, storage = []\<rparr>) \<and>
   spec_doubling_capacity (length (replicate (2 ^ 31) ([] :: cell list) @ [[]])) = 2 ^ 32"
proof -
  have a: "push_all (\<lambda>n. True)
     (Some \<lparr>size_f = 0 :: 32 word, capacity_f = 0, element_size_f = 0, storage = []\<rparr>)
     (replicate (2 ^ 31) [])
     = Inr (Some \<lparr>size_f = of_nat (2 ^ 31), capacity_f = of_nat (spec_doubling_capacity (2 ^ 31)),
                       element_size_f = 0, storage = []\<rparr>)"
    by (rule zero_width_pushes) simp
  have b: "cvector_compute_next_grow (2147483648 :: 32 word) = 0"
    by (simp add: cvector_compute_next_grow_def push_bit_1_word)
  have 1: "push_all (\<lambda>n. True)
     (Some \<lparr>size_f = 0 :: 32 word, capacity_f = 0, element_size_f = 0, storage = []\<rparr>)
     (replicate (2 ^ 31) [] @ [[]])
   = Inr (Some \<lparr>size_f = 2 ^ 31 + 1, capacity_f = 0, element_size_f = 0, storage = []\<rparr>)"
    unfolding push_all_append a spec_doubling_capacity_power
    by (simp add: zero_width_push b)
  have "spec_doubling_capacity (Suc (2 ^ 31)) = 2 * 2 ^ 31"
    unfolding spec_doubling_capacity.simps spec_doubling_capacity_power by simp
  then have 2: "spec_doubling_capacity (length (replicate (2 ^ 31) ([] :: cell list) @ [[]])) = 2 ^ 32"
    by simp
  from 1 2 show ?thesis by (rule conjI)
qed

subsection \<open>The size never exceeds the capacity\<close>

lemma set_size_Inr: "cvector_set_size h n = Inr h' \<longleftrightarrow> (\<exists>v. h = Some v \<and> h' = Some (v\<lparr>size_f := n\<rparr>))"
  by (cases h) auto

lemma bind_r_InrE:
  assumes "bind_r m f = Inr y"
  obtains x where "m = Inr x" and "f x = Inr y"
  using assms by (cases m) simp_all

lemma grow_if_needed:
  fixes v :: "('w::len) cvector"
  assumes "(if capacity_f v \<le> size_f v
            then cvector_grow alloc (Some v) (cvector_compute_next_grow (capacity_f v))
            else Inr (Some v)) = Inr h"
  obtains g where "h = Some (v\<lparr>capacity_f := grown_capacity v, storage := g\<rparr>)"
    and "capacity_f v \<le> size_f v \<Longrightarrow>
           g = resize_storage (storage v)
                 (unat (HEADER_SIZE + cvector_compute_next_grow (capacity_f v) * element_size_f v)
                    - unat (HEADER_SIZE :: 'w word))"
    and "capacity_f v \<le> size_f v \<Longrightarrow>
           \<not> HEADER_SIZE + cvector_compute_next_grow (capacity_f v) * element_size_f v < HEADER_SIZE"
    and "\<not> capacity_f v \<le> size_f v \<Longrightarrow> g = storage v"
proof (cases "capacity_f v \<le> size_f v")
  case True
  with assms have g: "cvector_grow alloc (Some v) (cvector_compute_next_grow (capacity_f v)) = Inr h"
    by (simp del: cvector_grow.simps)
  from grow_result(1) [OF g] grow_result(3) [OF g] True that show ?thesis
    by (simp add: grown_capacity_def)
next
  case False
  with assms that [of "storage v"] show ?thesis
    by (simp add: grown_capacity_def)
qed

lemma insert_after_grow:
  fixes v :: "('w::len) cvector"
  assumes "(if capacity_f v \<le> size_f v
            then cvector_grow alloc (Some v) (cvector_compute_next_grow (capacity_f v))
            else Inr (Some v)) = Inr (Some v1)"
  shows "cvector_insert alloc (Some v) i d =
     bind_r (if i < size_f v1
             then memmove_m (Some v1)
                    (unat (HEADER_SIZE :: 'w word) + unat (i * element_size_f v1) + unat (element_size_f v1))
                    (unat (HEADER_SIZE :: 'w word) + unat (i * element_size_f v1))
                    (unat ((size_f v1 - i) * element_size_f v1))
             else Inr (Some v1)) (\<lambda>vec.
     bind_r (memcpy_m vec (unat (HEADER_SIZE :: 'w word) + unat (element_size_f v1 * i)) d
               (unat (element_size_f v1))) (\<lambda>vec.
     cvector_set_size vec (size_f v1 + 1)))"
  by (simp add: assms Let_def del: cvector_grow.simps memmove_m.simps memcpy_m.simps)

lemma insert_fields:
  fixes v :: "('w::len) cvector"
  assumes "cvector_insert alloc (Some v) i d = Inr h"
  shows "\<exists>v'. h = Some v' \<and> size_f v' = size_f v + 1 \<and> element_size_f v' = element_size_f v \<and>
           capacity_f v' = grown_capacity v"
proof -
  from assms obtain h1 where g0: "(if capacity_f v \<le> size_f v
             then cvector_grow alloc (Some v) (cvector_compute_next_grow (capacity_f v))
             else Inr (Some v)) = Inr h1"
    by (auto simp: bind_r_Inr_iff simp del: cvector_grow.simps)
  from grow_if_needed [OF g0] obtain g where h1: "h1 = Some (v\<lparr>capacity_f := grown_capacity v, storage := g\<rparr>)"
    by blast
  let ?v1 = "v\<lparr>capacity_f := grown_capacity v, storage := g\<rparr>"
  note u = assms [unfolded insert_after_grow [OF g0 [unfolded h1]]]
  from u obtain h2 where m: "(if i < size_f ?v1
             then memmove_m (Some ?v1)
                    (unat (HEADER_SIZE :: 'w word) + unat (i * element_size_f ?v1) + unat (element_size_f ?v1))
                    (unat (HEADER_SIZE :: 'w word) + unat (i * element_size_f ?v1))
                    (unat ((size_f ?v1 - i) * element_size_f ?v1))
             else Inr (Some ?v1)) = Inr h2"
    and u2: "bind_r (memcpy_m h2 (unat (HEADER_SIZE :: 'w word) + unat (element_size_f ?v1 * i)) d
               (unat (element_size_f ?v1))) (\<lambda>vec.
     cvector_set_size vec (size_f ?v1 + 1)) = Inr h"
    by (rule bind_r_InrE)
  from u2 obtain h3 where c: "memcpy_m h2 (unat (HEADER_SIZE :: 'w word) + unat (element_size_f ?v1 * i)) d
               (unat (element_size_f ?v1)) = Inr h3"
    and s: "cvector_set_size h3 (size_f ?v1 + 1) = Inr h"
    by (rule bind_r_InrE)
  have "\<exists>v2. h2 = Some v2 \<and> size_f v2 = size_f v \<and> capacity_f v2 = grown_capacity v \<and>
    element_size_f v2 = element_size_f v"
  proof (cases "i < size_f ?v1")
    case True
    with m have "memmove_m (Some ?v1)
                    (unat (HEADER_SIZE :: 'w word) + unat (i * element_size_f ?v1) + unat (element_size_f ?v1))
                    (unat (HEADER_SIZE :: 'w word) + unat (i * element_size_f ?v1))
                    (unat ((size_f ?v1 - i) * element_size_f ?v1)) = Inr h2"
      by (simp del: memmove_m.simps)
    from memmove_m_fields [OF this] show ?thesis by auto
  next
    case False
    with m show ?thesis by auto
  qed
  then obtain v2 where v2: "h2 = Some v2" "size_f v2 = size_f v" "capacity_f v2 = grown_capacity v"
    "element_size_f v2 = element_size_f v"
    by blast
  from memcpy_m_fields [OF c] v2 obtain v3 where v3: "h3 = Some v3" "size_f v3 = size_f v" "capacity_f v3 = grown_capacity v"
    "element_size_f v3 = element_size_f v"
    by auto
  from s v3 show ?thesis by auto
qed

lemma pop_loop_result:
  fixes v :: "('w::len) cvector"
  assumes "resize_pop_loop vec old_size new_size = Inr h" and "vec = Some v"
  shows "h = Some (v\<lparr>size_f := size_f v - (if new_size < old_size then old_size - new_size else 0)\<rparr>)"
  using assms
proof (induction vec old_size new_size arbitrary: v rule: resize_pop_loop.induct)
  case (1 vec old_size new_size)
  show ?case
  proof (cases "new_size < old_size")
    case True
    with "1.prems" have r: "resize_pop_loop (Some (v\<lparr>size_f := size_f v - 1\<rparr>)) (old_size - 1) new_size = Inr h"
      by (simp add: cvector_pop_back_def)
    from "1.IH" [OF True r refl]
    have h: "h = Some (v\<lparr>size_f := size_f v - 1 - (if new_size < old_size - 1 then old_size - 1 - new_size else 0)\<rparr>)"
      by simp
    show ?thesis
    proof (cases "new_size < old_size - 1")
      case True
      with h \<open>new_size < old_size\<close> show ?thesis by simp
    next
      case False
      with \<open>new_size < old_size\<close> have "old_size - new_size = 1" by unat_arith
      with h False \<open>new_size < old_size\<close> show ?thesis by simp
    qed
  next
    case False
    with "1.prems" show ?thesis by simp
  qed
qed

lemma push_loop_fields:
  fixes v :: "('w::len) cvector"
  assumes "resize_push_loop alloc vec old_size new_size x = Inr h" and "vec = Some v"
    and "unat (size_f v) + (unat new_size - unat old_size) \<le> unat (capacity_f v)"
  shows "\<exists>v'. h = Some v' \<and> capacity_f v' = capacity_f v \<and> element_size_f v' = element_size_f v \<and>
           unat (size_f v') = unat (size_f v) + (unat new_size - unat old_size)"
  using assms
proof (induction alloc vec old_size new_size x arbitrary: v rule: resize_push_loop.induct)
  case (1 alloc vec old_size new_size x)
  show ?case
  proof (cases "old_size < new_size")
    case True
    then have lt: "unat old_size < unat new_size" and suc: "unat (old_size + 1) = Suc (unat old_size)"
      by unat_arith+
    from "1.prems"(1,2) True obtain h1 where p: "cvector_push_back alloc (Some v) x = Inr h1"
      and r: "resize_push_loop alloc h1 (old_size + 1) new_size x = Inr h"
      by (auto simp: bind_r_Inr_iff)
    from push_back_fields [OF p] obtain v1 where v1: "h1 = Some v1" "size_f v1 = size_f v + 1"
      "element_size_f v1 = element_size_f v" "capacity_f v1 = grown_capacity v"
      by blast
    from "1.prems"(3) lt have room: "unat (size_f v) < unat (capacity_f v)" by linarith
    then have c1: "capacity_f v1 = capacity_f v"
      by (simp add: v1(4) grown_capacity_def word_le_nat_alt)
    from room have "Suc (unat (size_f v)) < 2 ^ LENGTH('w)"
      using unsigned_less [of "capacity_f v", where 'a = nat] by linarith
    then have s1: "unat (size_f v1) = Suc (unat (size_f v))"
      by (simp add: v1(2) unat_Suc_word)
    from "1.prems"(3) lt have "unat (size_f v1) + (unat new_size - unat (old_size + 1)) \<le> unat (capacity_f v1)"
      unfolding s1 suc c1 by linarith
    from "1.IH" [OF True r v1(1) this] obtain v' where
      "h = Some v'" "capacity_f v' = capacity_f v1" "element_size_f v' = element_size_f v1"
      "unat (size_f v') = unat (size_f v1) + (unat new_size - unat (old_size + 1))"
      by blast
    with lt show ?thesis
      unfolding s1 suc c1 v1(3) by simp
  next
    case False
    then have "unat new_size - unat old_size = 0" by (simp add: word_less_nat_alt)
    with False "1.prems" show ?thesis by auto
  qed
qed


lemma init_keeps:
  "cvector_init alloc c e = Inr h \<Longrightarrow> size_within_capacity h"
  by (auto simp: cvector_init_def size_within_capacity_def split: if_splits)

lemma grow_keeps:
  assumes "size_f v \<le> n" and "cvector_grow alloc (Some v) n = Inr h"
  shows "size_within_capacity h"
  using grow_result(1) [OF assms(2)] assms(1) by (simp add: size_within_capacity_def)

lemma reserve_keeps:
  assumes "size_f v \<le> capacity_f v" and "cvector_reserve alloc (Some v) n = Inr h"
  shows "size_within_capacity h"
proof (cases "capacity_f v < n")
  case True
  with assms(2) have g: "cvector_grow alloc (Some v) n = Inr h"
    by (simp add: cvector_reserve_def del: cvector_grow.simps)
  from assms(1) True have "size_f v \<le> n" by simp
  then show ?thesis using g by (rule grow_keeps)
next
  case False
  with assms show ?thesis by (auto simp: cvector_reserve_def size_within_capacity_def)
qed

lemma shrink_keeps:
  assumes "cvector_shrink_to_fit alloc (Some v) = Inr h"
  shows "size_within_capacity h"
proof -
  from assms have "cvector_grow alloc (Some v) (size_f v) = Inr h"
    by (simp add: cvector_shrink_to_fit_def del: cvector_grow.simps)
  with order_refl show ?thesis by (rule grow_keeps)
qed

lemma grown_capacity_fits:
  fixes v :: "('w::len) cvector"
  assumes "size_f v \<le> capacity_f v"
    and "capacity_f v \<le> size_f v \<longrightarrow> unat (capacity_f v) < 2 ^ (LENGTH('w) - 1)"
  shows "size_f v + 1 \<le> grown_capacity v"
proof (cases "capacity_f v \<le> size_f v")
  case True
  with assms have eq: "size_f v = capacity_f v" and b: "unat (capacity_f v) < 2 ^ (LENGTH('w) - 1)"
    by simp_all
  have half: "2 * (2::nat) ^ (LENGTH('w) - 1) = 2 ^ LENGTH('w)"
    by (cases "LENGTH('w)") simp_all
  with b have "Suc (unat (capacity_f v)) < 2 ^ LENGTH('w)" by linarith
  then have "unat (capacity_f v + 1) = Suc (unat (capacity_f v))" by (rule unat_Suc_word)
  with unat_next_grow [OF b] True eq show ?thesis
    by (simp add: grown_capacity_def word_le_nat_alt)
next
  case False
  then have "size_f v < capacity_f v" by simp
  then have "size_f v + 1 \<le> capacity_f v" by (rule inc_le)
  with False show ?thesis by (simp add: grown_capacity_def)
qed

lemma push_back_keeps:
  fixes v :: "('w::len) cvector"
  assumes "size_f v \<le> capacity_f v"
    and "capacity_f v \<le> size_f v \<longrightarrow> unat (capacity_f v) < 2 ^ (LENGTH('w) - 1)"
    and "cvector_push_back alloc (Some v) x = Inr h"
  shows "size_within_capacity h"
  using push_back_fields [OF assms(3)] grown_capacity_fits [OF assms(1,2)]
  by (auto simp: size_within_capacity_def)

lemma insert_keeps:
  fixes v :: "('w::len) cvector"
  assumes "size_f v \<le> capacity_f v"
    and "capacity_f v \<le> size_f v \<longrightarrow> unat (capacity_f v) < 2 ^ (LENGTH('w) - 1)"
    and "cvector_insert alloc (Some v) i x = Inr h"
  shows "size_within_capacity h"
  using insert_fields [OF assms(3)] grown_capacity_fits [OF assms(1,2)]
  by (auto simp: size_within_capacity_def)

lemma dec_le_capacity:
  fixes s c :: "'w::len word"
  assumes "s \<le> c" and "s \<noteq> 0"
  shows "s - 1 \<le> c"
  using assms by unat_arith

lemma pop_back_keeps:
  assumes "size_f v \<le> capacity_f v" and "size_f v \<noteq> 0" and "cvector_pop_back (Some v) = Inr h"
  shows "size_within_capacity h"
  using assms dec_le_capacity [OF assms(1,2)]
  by (auto simp: cvector_pop_back_def size_within_capacity_def)

lemma remove_keeps:
  fixes v :: "('w::len) cvector"
  assumes "size_f v \<le> capacity_f v" and "cvector_remove (Some v) i = Inr h"
  shows "size_within_capacity h"
proof (cases "size_f v \<le> i")
  case True
  with assms show ?thesis by (auto simp: size_within_capacity_def)
next
  case False
  then have "size_f v \<noteq> 0" by auto
  from dec_le_capacity [OF assms(1) this] have d: "size_f v - 1 \<le> capacity_f v" .
  from assms(2) False
  have "\<exists>a b c. memmove_m (Some (v\<lparr>size_f := size_f v - 1\<rparr>)) a b c = Inr h"
    by (simp add: Let_def del: memmove_m.simps) blast
  then obtain a b c where "memmove_m (Some (v\<lparr>size_f := size_f v - 1\<rparr>)) a b c = Inr h"
    by blast
  from memmove_m_fields [OF this] d show ?thesis
    by (auto simp: size_within_capacity_def)
qed

lemma clear_keeps:
  assumes "cvector_clear (Some v) = Inr h"
  shows "size_within_capacity h"
  using assms by (auto simp: cvector_clear_def size_within_capacity_def)

lemma clone_keeps:
  assumes "size_f v \<le> capacity_f v" and "cvector_clone alloc (Some v) None = Inr h"
  shows "size_within_capacity h"
  using assms by (auto simp: size_within_capacity_def Let_def split: if_splits)

lemma swap_keeps:
  assumes "size_f v \<le> capacity_f v" and "size_f u \<le> capacity_f u"
    and "cvector_swap (Some v) (Some (Some u)) = Inr (h, ho)"
  shows "size_within_capacity h \<and> (\<exists>h'. ho = Some h' \<and> size_within_capacity h')"
  using assms by (auto simp: size_within_capacity_def)

lemma resize_keeps:
  fixes v :: "('w::len) cvector"
  assumes "size_f v \<le> capacity_f v" and "cvector_resize alloc (Some (Some v)) n x = Inr h"
  shows "size_within_capacity h"
proof (cases "size_f v < n")
  case True
  with assms(2) obtain h1 where r: "cvector_reserve alloc (Some v) n = Inr h1"
    and l0: "bind_r (cvector_set_size h1 0) (\<lambda>vec. resize_push_loop alloc vec (size_f v) n x) = Inr h"
    by (auto simp: bind_r_Inr_iff simp del: resize_push_loop.simps)
  have "\<exists>v1. h1 = Some v1 \<and> n \<le> capacity_f v1"
  proof (cases "capacity_f v < n")
    case True
    with r have "cvector_grow alloc (Some v) n = Inr h1"
      by (simp add: cvector_reserve_def del: cvector_grow.simps)
    from grow_result(1) [OF this] show ?thesis by simp
  next
    case False
    with r show ?thesis by (auto simp: cvector_reserve_def)
  qed
  then obtain v1 where v1: "h1 = Some v1" "n \<le> capacity_f v1" by blast
  with l0 have l: "resize_push_loop alloc (Some (v1\<lparr>size_f := 0\<rparr>)) (size_f v) n x = Inr h"
    by (simp del: resize_push_loop.simps)
  from v1(2) have "unat (size_f (v1\<lparr>size_f := 0\<rparr>)) + (unat n - unat (size_f v)) \<le> unat (capacity_f (v1\<lparr>size_f := 0\<rparr>))"
    by (simp add: word_le_nat_alt)
  from push_loop_fields [OF l refl this] obtain v' where v': "h = Some v'"
    "capacity_f v' = capacity_f v1" "unat (size_f v') = unat n - unat (size_f v)"
    by auto
  with v1(2) show ?thesis
    by (simp add: size_within_capacity_def word_le_nat_alt)
next
  case False
  with assms(2) have "resize_pop_loop (Some v) (size_f v) n = Inr h"
    by (simp del: resize_pop_loop.simps)
  from pop_loop_result [OF this refl]
  have h: "h = Some (v\<lparr>size_f := size_f v - (if n < size_f v then size_f v - n else 0)\<rparr>)" .
  from False have "n \<le> size_f v" by simp
  with assms(1) h show ?thesis
    by (auto simp: size_within_capacity_def)
qed

text \<open>
  C7, as the code has it. A vector whose size does not exceed its capacity has this
  property again after every operation that returns: initialize, reserve, shrink-to-fit,
  pop-back (on a non-empty vector), remove, clear, resize, clone and swap as they are;
  \<^verbatim>\<open>cvector_grow\<close> when the requested capacity is at least the size; push-back and insert
  when, in case they have to grow, the capacity is below \<open>2 ^ (w - 1)\<close>, \<open>w\<close> the width of
  \<^verbatim>\<open>size_t\<close>.
\<close>

theorem size_le_capacity_preserved:
  fixes v u :: "('w::len) cvector"
  assumes "size_f v \<le> capacity_f v"
  shows "(cvector_init alloc c e = Inr (h1 :: 'w handle) \<longrightarrow> size_within_capacity h1) \<and>
         (cvector_reserve alloc (Some v) n2 = Inr h2 \<longrightarrow> size_within_capacity h2) \<and>
         (size_f v \<le> n3 \<longrightarrow> cvector_grow alloc (Some v) n3 = Inr h3 \<longrightarrow> size_within_capacity h3) \<and>
         (cvector_shrink_to_fit alloc (Some v) = Inr h4 \<longrightarrow> size_within_capacity h4) \<and>
         ((capacity_f v \<le> size_f v \<longrightarrow> unat (capacity_f v) < 2 ^ (LENGTH('w) - 1)) \<longrightarrow>
            cvector_push_back alloc (Some v) x5 = Inr h5 \<longrightarrow> size_within_capacity h5) \<and>
         (size_f v \<noteq> 0 \<longrightarrow> cvector_pop_back (Some v) = Inr h6 \<longrightarrow> size_within_capacity h6) \<and>
         ((capacity_f v \<le> size_f v \<longrightarrow> unat (capacity_f v) < 2 ^ (LENGTH('w) - 1)) \<longrightarrow>
            cvector_insert alloc (Some v) i7 x7 = Inr h7 \<longrightarrow> size_within_capacity h7) \<and>
         (cvector_remove (Some v) i8 = Inr h8 \<longrightarrow> size_within_capacity h8) \<and>
         (cvector_clear (Some v) = Inr h9 \<longrightarrow> size_within_capacity h9) \<and>
         (cvector_resize alloc (Some (Some v)) n10 x10 = Inr h10 \<longrightarrow> size_within_capacity h10) \<and>
         (cvector_clone alloc (Some v) None = Inr h11 \<longrightarrow> size_within_capacity h11) \<and>
         (size_f u \<le> capacity_f u \<longrightarrow> cvector_swap (Some v) (Some (Some u)) = Inr (h12, o12) \<longrightarrow>
            size_within_capacity h12 \<and> (\<exists>h'. o12 = Some h' \<and> size_within_capacity h'))"
proof (intro conjI impI)
  show "size_within_capacity h1" if "cvector_init alloc c e = Inr h1"
    using that by (rule init_keeps)
  show "size_within_capacity h2" if "cvector_reserve alloc (Some v) n2 = Inr h2"
    using assms that by (rule reserve_keeps)
  show "size_within_capacity h3" if "size_f v \<le> n3" "cvector_grow alloc (Some v) n3 = Inr h3"
    using that by (rule grow_keeps)
  show "size_within_capacity h4" if "cvector_shrink_to_fit alloc (Some v) = Inr h4"
    using that by (rule shrink_keeps)
  show "size_within_capacity h5"
    if "capacity_f v \<le> size_f v \<longrightarrow> unat (capacity_f v) < 2 ^ (LENGTH('w) - 1)"
      "cvector_push_back alloc (Some v) x5 = Inr h5"
    using assms that by (rule push_back_keeps)
  show "size_within_capacity h6" if "size_f v \<noteq> 0" "cvector_pop_back (Some v) = Inr h6"
    using assms that by (rule pop_back_keeps)
  show "size_within_capacity h7"
    if "capacity_f v \<le> size_f v \<longrightarrow> unat (capacity_f v) < 2 ^ (LENGTH('w) - 1)"
      "cvector_insert alloc (Some v) i7 x7 = Inr h7"
    using assms that by (rule insert_keeps)
  show "size_within_capacity h8" if "cvector_remove (Some v) i8 = Inr h8"
    using assms that by (rule remove_keeps)
  show "size_within_capacity h9" if "cvector_clear (Some v) = Inr h9"
    using that by (rule clear_keeps)
  show "size_within_capacity h10" if "cvector_resize alloc (Some (Some v)) n10 x10 = Inr h10"
    using assms that by (rule resize_keeps)
  show "size_within_capacity h11" if "cvector_clone alloc (Some v) None = Inr h11"
    using assms that by (rule clone_keeps)
  show "size_within_capacity h12" "\<exists>h'. o12 = Some h' \<and> size_within_capacity h'"
    if "size_f u \<le> capacity_f u" "cvector_swap (Some v) (Some (Some u)) = Inr (h12, o12)"
    using swap_keeps [OF assms that] by simp_all
qed

theorem size_le_capacity_preserved_witness:
  "size_f \<lparr>size_f = 1 :: 64 word, capacity_f = 1, element_size_f = 1, storage = [Some 7]\<rparr>
     \<le> capacity_f \<lparr>size_f = 1 :: 64 word, capacity_f = 1, element_size_f = 1, storage = [Some 7]\<rparr> \<and>
   cvector_init (\<lambda>n. True) 0 1
     = Inr (Some \<lparr>size_f = 0 :: 64 word, capacity_f = 0, element_size_f = 1, storage = []\<rparr>) \<and>
   size_within_capacity (Some \<lparr>size_f = 0 :: 64 word, capacity_f = 0, element_size_f = 1, storage = []\<rparr>) \<and>
   cvector_reserve (\<lambda>n. True) (Some \<lparr>size_f = 1 :: 64 word, capacity_f = 1, element_size_f = 1, storage = [Some 7]\<rparr>) 4
     = Inr (Some \<lparr>size_f = 1 :: 64 word, capacity_f = 4, element_size_f = 1, storage = [Some 7, None, None, None]\<rparr>) \<and>
   size_within_capacity (Some \<lparr>size_f = 1 :: 64 word, capacity_f = 4, element_size_f = 1, storage = [Some 7, None, None, None]\<rparr>) \<and>
   cvector_grow (\<lambda>n. True) (Some \<lparr>size_f = 1 :: 64 word, capacity_f = 1, element_size_f = 1, storage = [Some 7]\<rparr>) 2
     = Inr (Some \<lparr>size_f = 1 :: 64 word, capacity_f = 2, element_size_f = 1, storage = [Some 7, None]\<rparr>) \<and>
   size_within_capacity (Some \<lparr>size_f = 1 :: 64 word, capacity_f = 2, element_size_f = 1, storage = [Some 7, None]\<rparr>) \<and>
   cvector_shrink_to_fit (\<lambda>n. True) (Some \<lparr>size_f = 1 :: 64 word, capacity_f = 1, element_size_f = 1, storage = [Some 7]\<rparr>)
     = Inr (Some \<lparr>size_f = 1 :: 64 word, capacity_f = 1, element_size_f = 1, storage = [Some 7]\<rparr>) \<and>
   size_within_capacity (Some \<lparr>size_f = 1 :: 64 word, capacity_f = 1, element_size_f = 1, storage = [Some 7]\<rparr>) \<and>
   cvector_push_back (\<lambda>n. True) (Some \<lparr>size_f = 1 :: 64 word, capacity_f = 1, element_size_f = 1, storage = [Some 7]\<rparr>) [Some 9]
     = Inr (Some \<lparr>size_f = 2 :: 64 word, capacity_f = 2, element_size_f = 1, storage = [Some 7, Some 9]\<rparr>) \<and>
   size_within_capacity (Some \<lparr>size_f = 2 :: 64 word, capacity_f = 2, element_size_f = 1, storage = [Some 7, Some 9]\<rparr>) \<and>
   cvector_pop_back (Some \<lparr>size_f = 1 :: 64 word, capacity_f = 1, element_size_f = 1, storage = [Some 7]\<rparr>)
     = Inr (Some \<lparr>size_f = 0 :: 64 word, capacity_f = 1, element_size_f = 1, storage = [Some 7]\<rparr>) \<and>
   size_within_capacity (Some \<lparr>size_f = 0 :: 64 word, capacity_f = 1, element_size_f = 1, storage = [Some 7]\<rparr>) \<and>
   cvector_insert (\<lambda>n. True) (Some \<lparr>size_f = 1 :: 64 word, capacity_f = 1, element_size_f = 1, storage = [Some 7]\<rparr>) 0 [Some 9]
     = Inr (Some \<lparr>size_f = 2 :: 64 word, capacity_f = 2, element_size_f = 1, storage = [Some 9, Some 7]\<rparr>) \<and>
   size_within_capacity (Some \<lparr>size_f = 2 :: 64 word, capacity_f = 2, element_size_f = 1, storage = [Some 9, Some 7]\<rparr>) \<and>
   cvector_remove (Some \<lparr>size_f = 1 :: 64 word, capacity_f = 1, element_size_f = 1, storage = [Some 7]\<rparr>) 0
     = Inr (Some \<lparr>size_f = 0 :: 64 word, capacity_f = 1, element_size_f = 1, storage = [Some 7]\<rparr>) \<and>
   size_within_capacity (Some \<lparr>size_f = 0 :: 64 word, capacity_f = 1, element_size_f = 1, storage = [Some 7]\<rparr>) \<and>
   cvector_clear (Some \<lparr>size_f = 1 :: 64 word, capacity_f = 1, element_size_f = 1, storage = [Some 7]\<rparr>)
     = Inr (Some \<lparr>size_f = 0 :: 64 word, capacity_f = 1, element_size_f = 1, storage = [Some 7]\<rparr>) \<and>
   size_within_capacity (Some \<lparr>size_f = 0 :: 64 word, capacity_f = 1, element_size_f = 1, storage = [Some 7]\<rparr>) \<and>
   cvector_resize (\<lambda>n. True) (Some (Some \<lparr>size_f = 1 :: 64 word, capacity_f = 1, element_size_f = 1, storage = [Some 7]\<rparr>)) 3 [Some 9]
     = Inr (Some \<lparr>size_f = 2 :: 64 word, capacity_f = 3, element_size_f = 1, storage = [Some 9, Some 9, None]\<rparr>) \<and>
   size_within_capacity (Some \<lparr>size_f = 2 :: 64 word, capacity_f = 3, element_size_f = 1, storage = [Some 9, Some 9, None]\<rparr>) \<and>
   cvector_clone (\<lambda>n. True) (Some \<lparr>size_f = 1 :: 64 word, capacity_f = 1, element_size_f = 1, storage = [Some 7]\<rparr>) None
     = Inr (Some \<lparr>size_f = 1 :: 64 word, capacity_f = 1, element_size_f = 1, storage = [Some 7]\<rparr>) \<and>
   size_within_capacity (Some \<lparr>size_f = 1 :: 64 word, capacity_f = 1, element_size_f = 1, storage = [Some 7]\<rparr>) \<and>
   cvector_swap (Some \<lparr>size_f = 1 :: 64 word, capacity_f = 1, element_size_f = 1, storage = [Some 7]\<rparr>) (Some (Some \<lparr>size_f = 0 :: 64 word, capacity_f = 0, element_size_f = 1, storage = []\<rparr>))
     = Inr (Some \<lparr>size_f = 0 :: 64 word, capacity_f = 0, element_size_f = 1, storage = []\<rparr>, Some (Some \<lparr>size_f = 1 :: 64 word, capacity_f = 1, element_size_f = 1, storage = [Some 7]\<rparr>)) \<and>
   size_within_capacity (Some \<lparr>size_f = 0 :: 64 word, capacity_f = 0, element_size_f = 1, storage = []\<rparr>) \<and> size_within_capacity (Some \<lparr>size_f = 1 :: 64 word, capacity_f = 1, element_size_f = 1, storage = [Some 7]\<rparr>)"
proof -
  let ?v = "\<lparr>size_f = 1 :: 64 word, capacity_f = 1, element_size_f = 1, storage = [Some 7]\<rparr>"
  let ?u = "\<lparr>size_f = 0 :: 64 word, capacity_f = 0, element_size_f = 1, storage = []\<rparr>"
  let ?a = "\<lambda>n :: nat. True"
  have inv: "size_f ?v \<le> capacity_f ?v" by simp
  have invu: "size_f ?u \<le> capacity_f ?u" by simp
  have room: "capacity_f ?v \<le> size_f ?v \<longrightarrow> unat (capacity_f ?v) < 2 ^ (LENGTH(64) - 1)" by simp
  have nz: "size_f ?v \<noteq> 0" by simp
  have le2: "size_f ?v \<le> 2" by (simp add: word_le_nat_alt)
  have e1: "cvector_init ?a 0 1 = Inr (Some ?u)"
    by code_simp
  have e2: "cvector_reserve ?a (Some ?v) 4
      = Inr (Some \<lparr>size_f = 1, capacity_f = 4, element_size_f = 1, storage = [Some 7, None, None, None]\<rparr>)"
    by code_simp
  have e3: "cvector_grow ?a (Some ?v) 2
      = Inr (Some \<lparr>size_f = 1, capacity_f = 2, element_size_f = 1, storage = [Some 7, None]\<rparr>)"
    by code_simp
  have e4: "cvector_shrink_to_fit ?a (Some ?v) = Inr (Some ?v)"
    by code_simp
  have e5: "cvector_push_back ?a (Some ?v) [Some 9]
      = Inr (Some \<lparr>size_f = 2, capacity_f = 2, element_size_f = 1, storage = [Some 7, Some 9]\<rparr>)"
    by code_simp
  have e6: "cvector_pop_back (Some ?v)
      = Inr (Some \<lparr>size_f = 0, capacity_f = 1, element_size_f = 1, storage = [Some 7]\<rparr>)"
    by code_simp
  have e7: "cvector_insert ?a (Some ?v) 0 [Some 9]
      = Inr (Some \<lparr>size_f = 2, capacity_f = 2, element_size_f = 1, storage = [Some 9, Some 7]\<rparr>)"
    by code_simp
  have e8: "cvector_remove (Some ?v) 0
      = Inr (Some \<lparr>size_f = 0, capacity_f = 1, element_size_f = 1, storage = [Some 7]\<rparr>)"
    by code_simp
  have e9: "cvector_clear (Some ?v)
      = Inr (Some \<lparr>size_f = 0, capacity_f = 1, element_size_f = 1, storage = [Some 7]\<rparr>)"
    by code_simp
  have e10: "cvector_resize ?a (Some (Some ?v)) 3 [Some 9]
      = Inr (Some \<lparr>size_f = 2, capacity_f = 3, element_size_f = 1, storage = [Some 9, Some 9, None]\<rparr>)"
    by code_simp
  have e11: "cvector_clone ?a (Some ?v) None = Inr (Some ?v)"
    by code_simp
  have e12: "cvector_swap (Some ?v) (Some (Some ?u)) = Inr (Some ?u, Some (Some ?v))"
    by simp
  note t = size_le_capacity_preserved [OF inv]
  have r1: "size_within_capacity (Some ?u)"
    by (rule t [THEN conjunct1, THEN mp, OF e1])
  have r2: "size_within_capacity (Some \<lparr>size_f = 1 :: 64 word, capacity_f = 4, element_size_f = 1, storage = [Some 7, None, None, None]\<rparr>)"
    by (rule t [THEN conjunct2, THEN conjunct1, THEN mp, OF e2])
  have r3: "size_within_capacity (Some \<lparr>size_f = 1 :: 64 word, capacity_f = 2, element_size_f = 1, storage = [Some 7, None]\<rparr>)"
    by (rule t [THEN conjunct2, THEN conjunct2, THEN conjunct1, THEN mp, THEN mp, OF le2 e3])
  have r4: "size_within_capacity (Some ?v)"
    by (rule t [THEN conjunct2, THEN conjunct2, THEN conjunct2, THEN conjunct1, THEN mp, OF e4])
  have r5: "size_within_capacity (Some \<lparr>size_f = 2 :: 64 word, capacity_f = 2, element_size_f = 1, storage = [Some 7, Some 9]\<rparr>)"
    by (rule t [THEN conjunct2, THEN conjunct2, THEN conjunct2, THEN conjunct2, THEN conjunct1, THEN mp, THEN mp, OF room e5])
  have r6: "size_within_capacity (Some \<lparr>size_f = 0 :: 64 word, capacity_f = 1, element_size_f = 1, storage = [Some 7]\<rparr>)"
    by (rule t [THEN conjunct2, THEN conjunct2, THEN conjunct2, THEN conjunct2, THEN conjunct2, THEN conjunct1, THEN mp, THEN mp, OF nz e6])
  have r7: "size_within_capacity (Some \<lparr>size_f = 2 :: 64 word, capacity_f = 2, element_size_f = 1, storage = [Some 9, Some 7]\<rparr>)"
    by (rule t [THEN conjunct2, THEN conjunct2, THEN conjunct2, THEN conjunct2, THEN conjunct2, THEN conjunct2, THEN conjunct1, THEN mp, THEN mp, OF room e7])
  have r8: "size_within_capacity (Some \<lparr>size_f = 0 :: 64 word, capacity_f = 1, element_size_f = 1, storage = [Some 7]\<rparr>)"
    by (rule t [THEN conjunct2, THEN conjunct2, THEN conjunct2, THEN conjunct2, THEN conjunct2, THEN conjunct2, THEN conjunct2, THEN conjunct1, THEN mp, OF e8])
  have r9: "size_within_capacity (Some \<lparr>size_f = 0 :: 64 word, capacity_f = 1, element_size_f = 1, storage = [Some 7]\<rparr>)"
    by (rule t [THEN conjunct2, THEN conjunct2, THEN conjunct2, THEN conjunct2, THEN conjunct2, THEN conjunct2, THEN conjunct2, THEN conjunct2, THEN conjunct1, THEN mp, OF e9])
  have r10: "size_within_capacity (Some \<lparr>size_f = 2 :: 64 word, capacity_f = 3, element_size_f = 1, storage = [Some 9, Some 9, None]\<rparr>)"
    by (rule t [THEN conjunct2, THEN conjunct2, THEN conjunct2, THEN conjunct2, THEN conjunct2, THEN conjunct2, THEN conjunct2, THEN conjunct2, THEN conjunct2, THEN conjunct1, THEN mp, OF e10])
  have r11: "size_within_capacity (Some ?v)"
    by (rule t [THEN conjunct2, THEN conjunct2, THEN conjunct2, THEN conjunct2, THEN conjunct2, THEN conjunct2, THEN conjunct2, THEN conjunct2, THEN conjunct2, THEN conjunct2, THEN conjunct1, THEN mp, OF e11])
  have r12: "size_within_capacity (Some ?u) \<and> (\<exists>h'. Some (Some ?v) = Some h' \<and> size_within_capacity h')"
    by (rule t [THEN conjunct2, THEN conjunct2, THEN conjunct2, THEN conjunct2, THEN conjunct2, THEN conjunct2, THEN conjunct2, THEN conjunct2, THEN conjunct2, THEN conjunct2, THEN conjunct2, THEN mp, THEN mp, OF invu e12])
  from r12 have r12': "size_within_capacity (Some ?u) \<and> size_within_capacity (Some ?v)"
    by simp
  from inv e1 r1 e2 r2 e3 r3 e4 r4 e5 r5 e6 r6 e7 r7 e8 r8 e9 r9 e10 r10 e11 r11 e12 r12'
  show ?thesis
    by (intro conjI) (erule conjunct1 conjunct2 | assumption)+
qed

text \<open>
  \<^verbatim>\<open>cvector_grow\<close> sets the capacity field to what it is given: called with 0 on a vector
  of size 1 it returns a vector of size 1 and capacity 0.
\<close>

theorem grow_below_size_counterexample:
  "cvector_grow (\<lambda>n. True)
     (Some \<lparr>size_f = 1 :: 64 word, capacity_f = 1, element_size_f = 1, storage = [Some 7]\<rparr>) 0
   = Inr (Some \<lparr>size_f = 1, capacity_f = 0, element_size_f = 1, storage = []\<rparr>) \<and>
   \<not> size_within_capacity (Some \<lparr>size_f = 1 :: 64 word, capacity_f = 0, element_size_f = 1, storage = []\<rparr>)"
  by code_simp

subsection \<open>Resizing a non-empty vector\<close>

text \<open>
  The growing path of \<^verbatim>\<open>cvector_resize\<close> sets the size field to 0 and pushes once for
  each count from the old size to the new one: whenever it returns, the size is
  \<open>new_size - old_size\<close>. That is \<open>new_size\<close> only for a vector that was empty.
\<close>

lemma resize_grow_size:
  fixes v :: "('w::len) cvector"
  assumes "size_f v < n" and "cvector_resize alloc (Some (Some v)) n x = Inr h"
  shows "\<exists>v'. h = Some v' \<and> unat (size_f v') = unat n - unat (size_f v)"
proof -
  from assms obtain h1 where r: "cvector_reserve alloc (Some v) n = Inr h1"
    and l0: "bind_r (cvector_set_size h1 0) (\<lambda>vec. resize_push_loop alloc vec (size_f v) n x) = Inr h"
    by (auto simp: bind_r_Inr_iff simp del: resize_push_loop.simps)
  have "\<exists>v1. h1 = Some v1 \<and> n \<le> capacity_f v1"
  proof (cases "capacity_f v < n")
    case True
    with r have "cvector_grow alloc (Some v) n = Inr h1"
      by (simp add: cvector_reserve_def del: cvector_grow.simps)
    from grow_result(1) [OF this] show ?thesis by simp
  next
    case False
    with r show ?thesis by (auto simp: cvector_reserve_def)
  qed
  then obtain v1 where v1: "h1 = Some v1" "n \<le> capacity_f v1" by blast
  with l0 have l: "resize_push_loop alloc (Some (v1\<lparr>size_f := 0\<rparr>)) (size_f v) n x = Inr h"
    by (simp del: resize_push_loop.simps)
  from v1(2) have "unat (size_f (v1\<lparr>size_f := 0\<rparr>)) + (unat n - unat (size_f v)) \<le> unat (capacity_f (v1\<lparr>size_f := 0\<rparr>))"
    by (simp add: word_le_nat_alt)
  from push_loop_fields [OF l refl this] show ?thesis
    by auto
qed

text \<open>
  C1 at a concrete input. A vector holding the one byte 7 (size 1, capacity 1) is
  resized to 3 with the fill byte 9. The growing path sets the size to 0 and pushes once
  for each count from the old size to the new one, twice here: the vector ends with size
  2 and the bytes 9, 9; the old element is overwritten and the third slot is never
  written.
\<close>

theorem resize_grow_nonempty_failing_input:
  "cvector_resize (\<lambda>n. True)
     (Some (Some \<lparr>size_f = 1 :: 64 word, capacity_f = 1, element_size_f = 1, storage = [Some 7]\<rparr>))
     3 [Some 9]
   = Inr (Some \<lparr>size_f = 2, capacity_f = 3, element_size_f = 1, storage = [Some 9, Some 9, None]\<rparr>)"
  by code_simp

subsection \<open>Insert followed by remove\<close>

text \<open>
  Byte ranges behind the header: what \<^verbatim>\<open>memmove\<close> and \<^verbatim>\<open>memcpy\<close> do at an offset
  \<open>HEADER_SIZE + a\<close>, and the two shifts of \<^verbatim>\<open>cvector_insert\<close> and \<^verbatim>\<open>cvector_remove\<close> on
  the list of bytes.
\<close>

lemma load_bytes_at:
  fixes v :: "('w::len) cvector"
  shows "load_bytes v (unat (HEADER_SIZE :: 'w word) + a) n =
     (if length (storage v) < a + n then Inl OutOfBounds
      else Inr (take n (drop a (storage v))))"
  by (simp add: load_bytes_def block_size_def)

lemma store_bytes_at:
  fixes v :: "('w::len) cvector"
  shows "store_bytes v (unat (HEADER_SIZE :: 'w word) + a) bs =
     (if length (storage v) < a + length bs then Inl OutOfBounds
      else Inr (v\<lparr>storage := take a (storage v) @ bs @ drop (a + length bs) (storage v)\<rparr>))"
  by (simp add: store_bytes_def block_size_def)

lemma memmove_at:
  fixes v :: "('w::len) cvector"
  shows "memmove_m (Some v) (unat (HEADER_SIZE :: 'w word) + a) (unat (HEADER_SIZE :: 'w word) + b) n =
     (if length (storage v) < b + n \<or> length (storage v) < a + n then Inl OutOfBounds
      else Inr (Some (v\<lparr>storage := take a (storage v) @ take n (drop b (storage v)) @
                                     drop (a + n) (storage v)\<rparr>)))"
proof (cases "length (storage v) < b + n")
  case True
  then show ?thesis by (simp add: load_bytes_at)
next
  case False
  then have "length (take n (drop b (storage v))) = n" by simp
  with False show ?thesis by (simp add: load_bytes_at store_bytes_at del: length_take)
qed

lemma memcpy_at:
  fixes v :: "('w::len) cvector"
  shows "memcpy_m (Some v) (unat (HEADER_SIZE :: 'w word) + a) src n =
     (if length src < n \<or> length (storage v) < a + n then Inl OutOfBounds
      else Inr (Some (v\<lparr>storage := take a (storage v) @ take n src @ drop (a + n) (storage v)\<rparr>)))"
  by (simp add: store_bytes_at min_def)

lemma shift_roundtrip:
  assumes "a + e + r \<le> length g" and "e \<le> length d"
  shows "take (a + r)
           (take a (take a g @ take e d @ take r (drop a g) @ drop (a + e + r) g) @
            take r (drop (a + e) (take a g @ take e d @ take r (drop a g) @ drop (a + e + r) g)) @
            drop (a + r) (take a g @ take e d @ take r (drop a g) @ drop (a + e + r) g))
         = take (a + r) g"
proof -
  let ?st = "take a g @ take e d @ take r (drop a g) @ drop (a + e + r) g"
  from assms have la: "length (take a g) = a" and le: "length (take e d) = e"
    and lr: "length (take r (drop a g)) = r"
    by simp_all
  have 1: "take a ?st = take a g" using la by simp
  have "drop (a + e) ?st = take r (drop a g) @ drop (a + e + r) g"
    using la le by simp
  then have 2: "take r (drop (a + e) ?st) = take r (drop a g)"
    using lr by simp
  have "take (a + r) (take a g @ take r (drop a g) @ drop (a + r) ?st) = take a g @ take r (drop a g)"
    using la lr by simp
  also have "\<dots> = take (a + r) g" by (simp add: take_add)
  finally show ?thesis unfolding 1 2 .
qed

lemma shift_insert:
  assumes "a + e + r \<le> length g"
  shows "take a (take (a + e) g @ take r (drop a g) @ drop (a + e + r) g) @ bs @
         drop (a + e) (take (a + e) g @ take r (drop a g) @ drop (a + e + r) g)
         = take a g @ bs @ take r (drop a g) @ drop (a + e + r) g"
proof -
  from assms have l: "length (take (a + e) g) = a + e" by simp
  have "take a (take (a + e) g @ take r (drop a g) @ drop (a + e + r) g) = take a g"
    using l by simp
  moreover have "drop (a + e) (take (a + e) g @ take r (drop a g) @ drop (a + e + r) g)
      = take r (drop a g) @ drop (a + e + r) g"
    using l by simp
  ultimately show ?thesis by simp
qed

lemma resize_storage_prefix:
  assumes "n \<le> m" and "n \<le> length bs"
  shows "take n (resize_storage bs m) = take n bs"
  using assms by (simp add: resize_storage_def min_def)

lemma resize_storage_length: "length (resize_storage bs m) = m"
  by (simp add: resize_storage_def)

text \<open>
  The result of \<^verbatim>\<open>cvector_insert\<close> on a well-formed vector at an index up to the size:
  with \<open>g\<close> the bytes after the optional growth, the bytes from the slot \<open>i\<close> on are
  shifted up by one slot and the slot \<open>i\<close> holds the first \<open>element_size\<close> bytes of the
  value.
\<close>

lemma insert_result:
  fixes v :: "('w::len) cvector"
  assumes wf: "wf_cvector v" and le: "i \<le> size_f v"
    and ins: "cvector_insert alloc (Some v) i d = Inr h"
    and a: "a = unat i * unat (element_size_f v)"
    and e: "e = unat (element_size_f v)"
    and r: "r = (unat (size_f v) - unat i) * unat (element_size_f v)"
  obtains g where
    "h = Some (v\<lparr>size_f := size_f v + 1, capacity_f := grown_capacity v,
                  storage := take a g @ take e d @ take r (drop a g) @ drop (a + e + r) g\<rparr>)"
    and "a + e + r \<le> length g" and "e \<le> length d"
    and "take (a + r) g = take (a + r) (storage v)"
proof -
  let ?h = "unat (HEADER_SIZE :: 'w word)"
  from wf have sc: "size_f v \<le> capacity_f v" by (simp add: wf_cvector_def)
  from le sc have ic: "i \<le> capacity_f v" by simp
  from le sc have rest: "size_f v - i \<le> capacity_f v"
    and urest: "unat (size_f v - i) = unat (size_f v) - unat i"
    and ule: "unat i \<le> unat (size_f v)"
    by unat_arith+
  note oi = wf_offsets [OF wf ic]
  note orr = wf_offsets [OF wf rest]
  note os = wf_offsets [OF wf sc]
  have ar: "a + r = unat (size_f v) * unat (element_size_f v)"
    using ule unfolding a r by (simp add: add_mult_distrib [symmetric])
  from ins obtain h1 where g0: "(if capacity_f v \<le> size_f v
             then cvector_grow alloc (Some v) (cvector_compute_next_grow (capacity_f v))
             else Inr (Some v)) = Inr h1"
    by (auto simp: bind_r_Inr_iff simp del: cvector_grow.simps)
  from grow_if_needed [OF g0] obtain g where
      h1: "h1 = Some (v\<lparr>capacity_f := grown_capacity v, storage := g\<rparr>)"
    and grown: "capacity_f v \<le> size_f v \<Longrightarrow>
           g = resize_storage (storage v)
                 (unat (HEADER_SIZE + cvector_compute_next_grow (capacity_f v) * element_size_f v)
                    - ?h)"
    and kept: "\<not> capacity_f v \<le> size_f v \<Longrightarrow> g = storage v"
    by blast
  let ?v1 = "v\<lparr>capacity_f := grown_capacity v, storage := g\<rparr>"
  note u = ins [unfolded insert_after_grow [OF g0 [unfolded h1]]]
  have "\<exists>g2. a + e + r \<le> length g \<and> e \<le> length d \<and>
          h = Some (v\<lparr>size_f := size_f v + 1, capacity_f := grown_capacity v,
                  storage := take a g @ take e d @ take r (drop a g) @ drop (a + e + r) g\<rparr>)"
  proof (cases "i < size_f v")
    case True
    with u have "bind_r (memmove_m (Some ?v1) (?h + (a + e)) (?h + a) r) (\<lambda>vec.
        bind_r (memcpy_m vec (?h + a) d e) (\<lambda>vec.
        cvector_set_size vec (size_f v + 1))) = Inr h"
      by (simp add: oi(1,2) orr(1) urest a e r add.assoc
          del: memmove_m.simps memcpy_m.simps cvector_set_size.simps)
    then obtain h2 where m: "memmove_m (Some ?v1) (?h + (a + e)) (?h + a) r = Inr h2"
      and c: "bind_r (memcpy_m h2 (?h + a) d e) (\<lambda>vec. cvector_set_size vec (size_f v + 1)) = Inr h"
      by (rule bind_r_InrE)
    from m [unfolded memmove_at] have b: "a + e + r \<le> length g"
      and h2: "h2 = Some (?v1\<lparr>storage := take (a + e) g @ take r (drop a g) @ drop (a + e + r) g\<rparr>)"
      by (simp_all add: add.assoc split: if_splits)
    from b have l2: "length (take (a + e) g @ take r (drop a g) @ drop (a + e + r) g) = length g"
      by simp
    from c obtain h3 where c1: "memcpy_m h2 (?h + a) d e = Inr h3"
      and s: "cvector_set_size h3 (size_f v + 1) = Inr h"
      by (rule bind_r_InrE)
    from c1 [unfolded h2 memcpy_at] b have ed: "e \<le> length d"
      and h3: "h3 = Some (?v1\<lparr>storage := take a g @ take e d @ take r (drop a g) @ drop (a + e + r) g\<rparr>)"
      by (simp_all add: shift_insert [OF b] l2 del: length_append split: if_splits)
    from s b ed show ?thesis unfolding h3 by auto
  next
    case False
    with le have "i = size_f v" by simp
    then have r0: "r = 0" by (simp add: r)
    from u False have c: "bind_r (memcpy_m (Some ?v1) (?h + a) d e)
        (\<lambda>vec. cvector_set_size vec (size_f v + 1)) = Inr h"
      by (simp add: oi(1,2) a e del: memcpy_m.simps cvector_set_size.simps)
    from c obtain h3 where c1: "memcpy_m (Some ?v1) (?h + a) d e = Inr h3"
      and s: "cvector_set_size h3 (size_f v + 1) = Inr h"
      by (rule bind_r_InrE)
    from c1 [unfolded memcpy_at] have ed: "e \<le> length d" and b: "a + e \<le> length g"
      and h3: "h3 = Some (?v1\<lparr>storage := take a g @ take e d @ drop (a + e) g\<rparr>)"
      by (simp_all split: if_splits)
    from s b ed r0 show ?thesis unfolding h3 by auto
  qed
  then have b: "a + e + r \<le> length g" and ed: "e \<le> length d"
    and h: "h = Some (v\<lparr>size_f := size_f v + 1, capacity_f := grown_capacity v,
                  storage := take a g @ take e d @ take r (drop a g) @ drop (a + e + r) g\<rparr>)"
    by simp_all
  have pre: "take (a + r) g = take (a + r) (storage v)"
  proof (cases "capacity_f v \<le> size_f v")
    case True
    from grown [OF True] have "length g = unat (HEADER_SIZE + cvector_compute_next_grow (capacity_f v) * element_size_f v) - ?h"
      by (simp add: resize_storage_length)
    with b have "a + r \<le> unat (HEADER_SIZE + cvector_compute_next_grow (capacity_f v) * element_size_f v) - ?h"
      by linarith
    moreover from os(4) ar have "a + r \<le> length (storage v)" by simp
    ultimately show ?thesis
      unfolding grown [OF True] by (rule resize_storage_prefix)
  next
    case False
    from kept [OF False] show ?thesis by simp
  qed
  from h b ed pre show ?thesis by (rule that)
qed

text \<open>
  C4, as the code has it. For a well-formed vector of size \<open>s\<close> with \<open>s < 2 ^ w - 1\<close>
  (\<open>w\<close> the width of \<^verbatim>\<open>size_t\<close>), every index \<open>i \<le> s\<close> and every value: when
  \<^verbatim>\<open>cvector_insert(vec, i, v)\<close> returns, \<^verbatim>\<open>cvector_remove(vec, i)\<close> returns as well and the
  element sequence is what it was before the insert: the size is \<open>s\<close> again and the
  bytes of the elements \<open>0, \<dots>, s - 1\<close> are the same.
\<close>

theorem insert_remove_inverse:
  fixes v :: "('w::len) cvector"
  assumes wf: "wf_cvector v" and le: "i \<le> size_f v" and nomax: "size_f v \<noteq> - 1"
    and ins: "cvector_insert alloc (Some v) i d = Inr h"
  shows "\<exists>v1 v2. h = Some v1 \<and> cvector_remove h i = Inr (Some v2) \<and>
           size_f v2 = size_f v \<and> element_size_f v2 = element_size_f v \<and>
           element_bytes v2 = element_bytes v"
proof -
  let ?h = "unat (HEADER_SIZE :: 'w word)"
  define a where "a = unat i * unat (element_size_f v)"
  define e where "e = unat (element_size_f v)"
  define r where "r = (unat (size_f v) - unat i) * unat (element_size_f v)"
  from wf have sc: "size_f v \<le> capacity_f v" by (simp add: wf_cvector_def)
  from le sc have ic: "i \<le> capacity_f v" by simp
  from le sc have rest: "size_f v - i \<le> capacity_f v"
    and urest: "unat (size_f v - i) = unat (size_f v) - unat i"
    and ule: "unat i \<le> unat (size_f v)"
    by unat_arith+
  from le nomax have lt: "\<not> size_f v + 1 \<le> i"
    by (metis inc_less_eq_iff order.strict_trans1 order_less_irrefl)
  note oi = wf_offsets [OF wf ic]
  note orr = wf_offsets [OF wf rest]
  have ar: "a + r = unat (size_f v) * unat (element_size_f v)"
    using ule unfolding a_def r_def by (simp add: add_mult_distrib [symmetric])
  from insert_result [OF wf le ins a_def e_def r_def] obtain g where
      h: "h = Some (v\<lparr>size_f := size_f v + 1, capacity_f := grown_capacity v,
                  storage := take a g @ take e d @ take r (drop a g) @ drop (a + e + r) g\<rparr>)"
    and b: "a + e + r \<le> length g" and ed: "e \<le> length d"
    and pre: "take (a + r) g = take (a + r) (storage v)"
    by blast
  let ?st = "take a g @ take e d @ take r (drop a g) @ drop (a + e + r) g"
  let ?v3 = "v\<lparr>size_f := size_f v, capacity_f := grown_capacity v, storage := ?st\<rparr>"
  from b ed have l: "length ?st = length g" by simp
  have rem: "cvector_remove h i = memmove_m (Some ?v3) (?h + a) (?h + (a + e)) r"
    unfolding h using lt
    by (simp add: Let_def oi(1,3) orr(1) urest a_def e_def r_def add.assoc
        del: memmove_m.simps)
  let ?v4 = "?v3\<lparr>storage := take a ?st @ take r (drop (a + e) ?st) @ drop (a + r) ?st\<rparr>"
  from b have "cvector_remove h i = Inr (Some ?v4)"
    unfolding rem memmove_at by (simp add: l del: length_append)
  moreover have "element_bytes ?v4 = element_bytes v"
    using shift_roundtrip [OF b ed] pre
    by (simp add: element_bytes_def ar [symmetric] del: take_append drop_append length_append)
  ultimately show ?thesis
    using h by simp
qed

theorem insert_remove_inverse_witness:
  "wf_cvector \<lparr>size_f = 2 :: 64 word, capacity_f = 2, element_size_f = 1, storage = [Some 1, Some 2]\<rparr> \<and>
   (1 :: 64 word) \<le> size_f \<lparr>size_f = 2 :: 64 word, capacity_f = 2, element_size_f = 1, storage = [Some 1, Some 2]\<rparr> \<and>
   size_f \<lparr>size_f = 2 :: 64 word, capacity_f = 2, element_size_f = 1, storage = [Some 1, Some 2]\<rparr> \<noteq> - 1 \<and>
   cvector_insert (\<lambda>n. True)
     (Some \<lparr>size_f = 2 :: 64 word, capacity_f = 2, element_size_f = 1, storage = [Some 1, Some 2]\<rparr>) 1 [Some 9]
     = Inr (Some \<lparr>size_f = 3, capacity_f = 4, element_size_f = 1, storage = [Some 1, Some 9, Some 2, None]\<rparr>) \<and>
   cvector_remove
     (Some \<lparr>size_f = 3 :: 64 word, capacity_f = 4, element_size_f = 1, storage = [Some 1, Some 9, Some 2, None]\<rparr>) 1
     = Inr (Some \<lparr>size_f = 2, capacity_f = 4, element_size_f = 1, storage = [Some 1, Some 2, Some 2, None]\<rparr>) \<and>
   element_bytes \<lparr>size_f = 2 :: 64 word, capacity_f = 4, element_size_f = 1, storage = [Some 1, Some 2, Some 2, None]\<rparr>
     = element_bytes \<lparr>size_f = 2 :: 64 word, capacity_f = 2, element_size_f = 1, storage = [Some 1, Some 2]\<rparr>"
proof -
  let ?v = "\<lparr>size_f = 2 :: 64 word, capacity_f = 2, element_size_f = 1, storage = [Some 1, Some 2]\<rparr>"
  let ?v1 = "\<lparr>size_f = 3 :: 64 word, capacity_f = 4, element_size_f = 1, storage = [Some 1, Some 9, Some 2, None]\<rparr>"
  let ?v2 = "\<lparr>size_f = 2 :: 64 word, capacity_f = 4, element_size_f = 1, storage = [Some 1, Some 2, Some 2, None]\<rparr>"
  have wf: "wf_cvector ?v" by (simp add: wf_cvector_def HEADER_SIZE_def)
  have le: "(1 :: 64 word) \<le> size_f ?v" by (simp add: word_le_nat_alt)
  have nomax: "size_f ?v \<noteq> - 1" by simp
  have ins: "cvector_insert (\<lambda>n. True) (Some ?v) 1 [Some 9] = Inr (Some ?v1)" by code_simp
  have rem: "cvector_remove (Some ?v1) 1 = Inr (Some ?v2)" by code_simp
  from insert_remove_inverse [OF wf le nomax ins] rem
  have "element_bytes ?v2 = element_bytes ?v"
    by (auto simp del: cvector_remove.simps)
  with wf le nomax ins rem show ?thesis
    by (intro conjI)
qed

text \<open>
  At size \<open>2 ^ w - 1\<close> the size field wraps around to 0 in the insert, and the remove
  that follows finds the index out of range and does nothing. Such a vector is
  well-formed when its elements have width 0: the size is 0 afterwards, not
  \<open>2 ^ 64 - 1\<close>.
\<close>

theorem insert_remove_size_counterexample:
  "wf_cvector \<lparr>size_f = - 1 :: 64 word, capacity_f = - 1, element_size_f = 0, storage = []\<rparr> \<and>
   bind_r (cvector_insert (\<lambda>n. True)
             (Some \<lparr>size_f = - 1 :: 64 word, capacity_f = - 1, element_size_f = 0, storage = []\<rparr>) 0 [])
          (\<lambda>h. cvector_remove h 0)
     = Inr (Some \<lparr>size_f = 0, capacity_f = - 2, element_size_f = 0, storage = []\<rparr>)"
proof -
  have "wf_cvector \<lparr>size_f = - 1 :: 64 word, capacity_f = - 1, element_size_f = 0, storage = []\<rparr>"
    by (simp add: wf_cvector_def HEADER_SIZE_def)
  moreover have "bind_r (cvector_insert (\<lambda>n. True)
             (Some \<lparr>size_f = - 1 :: 64 word, capacity_f = - 1, element_size_f = 0, storage = []\<rparr>) 0 [])
          (\<lambda>h. cvector_remove h 0)
     = Inr (Some \<lparr>size_f = 0, capacity_f = - 2, element_size_f = 0, storage = []\<rparr>)"
    by code_simp
  ultimately show ?thesis by (rule conjI)
qed

subsection \<open>Well-formed vectors in use\<close>

text \<open>
  The hypotheses used above are met by the vectors the functions build themselves:
  \<^verbatim>\<open>cvector_init\<close> returns a well-formed empty vector, and \<^verbatim>\<open>cvector_push_back\<close> on a
  well-formed vector returns a well-formed vector with the value appended to the element
  sequence, provided the value buffer holds a whole element and, when the block has to
  grow, the allocator grants the request and the doubled capacity and the new block
  length are values of \<^verbatim>\<open>size_t\<close>.
\<close>

lemma init_wf:
  assumes "cvector_init alloc c e = Inr h"
  shows "\<exists>v. h = Some v \<and> wf_cvector v \<and> size_f v = 0 \<and> capacity_f v = 0 \<and> element_size_f v = e"
  using assms by (auto simp: cvector_init_def wf_cvector_def split: if_splits)

lemma push_back_returns:
  fixes v :: "('w::len) cvector"
  assumes wf: "wf_cvector v"
    and val: "unat (element_size_f v) \<le> length value"
    and room: "capacity_f v \<le> size_f v \<Longrightarrow>
        alloc (unat (HEADER_SIZE :: 'w word) + unat (cvector_compute_next_grow (capacity_f v)) * unat (element_size_f v)) \<and>
        unat (capacity_f v) < 2 ^ (LENGTH('w) - 1) \<and>
        unat (HEADER_SIZE :: 'w word) + unat (cvector_compute_next_grow (capacity_f v)) * unat (element_size_f v)
          < 2 ^ LENGTH('w)"
  shows "\<exists>v'. cvector_push_back alloc (Some v) value = Inr (Some v') \<and> wf_cvector v' \<and>
           size_f v' = size_f v + 1 \<and>
           element_bytes v' = element_bytes v @ take (unat (element_size_f v)) value"
proof -
  let ?h = "unat (HEADER_SIZE :: 'w word)"
  let ?e = "unat (element_size_f v)"
  let ?s = "unat (size_f v)"
  define c where "c = grown_capacity v"
  define g where "g = resize_storage (storage v) (unat c * ?e)"
  let ?v1 = "v\<lparr>capacity_f := c, storage := g\<rparr>"
  from wf have sc: "size_f v \<le> capacity_f v"
    and len: "length (storage v) = unat (capacity_f v) * ?e"
    and bound: "?h + unat (capacity_f v) * ?e < 2 ^ LENGTH('w)"
    by (simp_all add: wf_cvector_def)
  have fits: "size_f v + 1 \<le> c"
    unfolding c_def using sc room by (intro grown_capacity_fits) auto
  have cb: "?h + unat c * ?e < 2 ^ LENGTH('w)"
    using room bound by (auto simp: c_def grown_capacity_def)
  have s1u: "?s \<le> unat c \<and> Suc ?s < 2 ^ LENGTH('w)"
  proof (cases "capacity_f v \<le> size_f v")
    case True
    with sc have eq: "size_f v = capacity_f v" by simp
    from room [OF True] have b: "unat (capacity_f v) < 2 ^ (LENGTH('w) - 1)" by simp
    have half: "2 * (2::nat) ^ (LENGTH('w) - 1) = 2 ^ LENGTH('w)"
      by (cases "LENGTH('w)") simp_all
    from unat_next_grow [OF b] True have "unat c = max 1 (2 * unat (capacity_f v))"
      by (simp add: c_def grown_capacity_def)
    with b half show ?thesis unfolding eq by (simp add: max_def split: if_splits)
  next
    case False
    then have ceq: "c = capacity_f v" by (simp add: c_def grown_capacity_def)
    from False have lt: "?s < unat (capacity_f v)" by (simp add: word_le_nat_alt)
    then have "Suc ?s < 2 ^ LENGTH('w)"
      using unsigned_less [of "capacity_f v", where 'a = nat] by linarith
    with lt ceq show ?thesis by simp
  qed
  then have s1: "size_f v \<le> c" and us: "unat (size_f v + 1) = Suc ?s"
    by (simp_all add: word_le_nat_alt unat_Suc_word)
  have wf1: "wf_cvector ?v1"
    using s1 cb by (simp add: wf_cvector_def g_def resize_storage_length)
  have step: "(if capacity_f v \<le> size_f v
             then cvector_grow alloc (Some v) (cvector_compute_next_grow (capacity_f v))
             else Inr (Some v)) = Inr (Some ?v1)"
  proof (cases "capacity_f v \<le> size_f v")
    case True
    then have c: "c = cvector_compute_next_grow (capacity_f v)"
      by (simp add: c_def grown_capacity_def)
    from cb have m: "unat (c * element_size_f v) = unat c * ?e"
      by (intro unat_mult_lem [THEN iffD1]) linarith
    from cb m have "?h + unat (c * element_size_f v) < 2 ^ LENGTH('w)" by simp
    then have "unat (HEADER_SIZE + c * element_size_f v) = ?h + unat (c * element_size_f v)"
      by (rule unat_add_lem [THEN iffD1])
    with m have n: "unat (HEADER_SIZE + c * element_size_f v) = ?h + unat c * ?e"
      by simp
    then have nlt: "\<not> HEADER_SIZE + c * element_size_f v < (HEADER_SIZE :: 'w word)"
      by (simp add: word_less_nat_alt)
    from room [OF True] have "alloc (?h + unat c * ?e)" by (simp add: c)
    with True n nlt show ?thesis
      by (simp add: realloc_m_def c [symmetric] g_def)
  next
    case False
    then have "c = capacity_f v" by (simp add: c_def grown_capacity_def)
    with False len show ?thesis
      by (simp add: g_def resize_storage_def)
  qed
  note o = wf_offsets [OF wf1, simplified, OF s1]
  have pre: "take (?s * ?e) g = take (?s * ?e) (storage v)"
    unfolding g_def using wf_offsets(4) [OF wf sc] o(4)
    by (intro resize_storage_prefix) (simp_all add: g_def resize_storage_length)
  have lg: "length g = unat c * ?e" by (simp add: g_def resize_storage_length)
  from fits have "Suc ?s \<le> unat c" using us by (simp add: word_le_nat_alt)
  then have "Suc ?s * ?e \<le> unat c * ?e" by (rule mult_le_mono1)
  then have room_g: "?s * ?e + ?e \<le> length g" by (simp add: lg)
  let ?v2 = "v\<lparr>size_f := size_f v + 1, capacity_f := c,
                storage := take (?s * ?e) g @ take ?e value @ drop (?s * ?e + ?e) g\<rparr>"
  have res: "cvector_push_back alloc (Some v) value = Inr (Some ?v2)"
    unfolding cvector_push_back_def cvector_capacity.simps cvector_size.simps bind_r.simps step
    using val room_g by (simp add: o(2) store_bytes_at min_absorb2)
  have wf2: "wf_cvector ?v2"
    using fits cb val room_g lg by (simp add: wf_cvector_def)
  have "element_bytes ?v2 = take (?s * ?e) g @ take ?e value"
    using val room_g by (simp add: element_bytes_def us)
  with pre have eb: "element_bytes ?v2 = element_bytes v @ take ?e value"
    by (simp add: element_bytes_def)
  from res wf2 eb show ?thesis by simp
qed

end
